theory Spec2Isabelle
  imports Complex_Main "HOL-Library.Char_ord" "HOL-Library.List_Lexorder" "HOL-Library.Sublist"
begin

section \<open>Swarm coordination hub: a shallow embedding of app.py\<close>

text \<open>
  The program keeps two pieces of state: the in-memory dictionary \<open>AGENTS\<close> and the
  SQLite table \<open>events\<close> in the file \<open>swarm_audit.db\<close>.  Every function of app.py
  becomes a function that takes the state and returns its result together with the
  new state.  The readings of the clocks (\<open>time.time()\<close>, \<open>datetime.utcnow()\<close>) are
  inputs of the call that reads them.  An exception is a value \<open>Inl e\<close>; the state
  returned with it is the state at the moment the exception left the function.
  The lock \<open>STATE_LOCK\<close> serialises the accesses to \<open>AGENTS\<close>; the embedding is the
  sequential behaviour.
\<close>

subsection \<open>Python values\<close>

text \<open>
  The values that reach the program are decoded JSON documents.  A Python string is
  the list of its code points (surrogates among them: the decoder of the request
  body lets them pass); \<open>ustr\<close> gives the string of a literal of the program.
  Numbers are the integers (floating point is outside the embedding).  A dictionary
  is the list of its items in insertion order.
\<close>

type_synonym ustring = "nat list"

definition ustr :: "string \<Rightarrow> ustring" where
  "ustr s = map of_char s"

datatype json =
    JNull
  | JBool bool
  | JInt int
  | JStr ustring
  | JArr "json list"
  | JObj "(ustring \<times> json) list"

datatype error = TypeError | AttributeError | OperationalError

text \<open>Truth value testing, as \<open>not x\<close> sees it.\<close>

fun truthy :: "json \<Rightarrow> bool" where
  "truthy JNull = False"
| "truthy (JBool b) = b"
| "truthy (JInt n) = (n \<noteq> 0)"
| "truthy (JStr s) = (s \<noteq> [])"
| "truthy (JArr xs) = (xs \<noteq> [])"
| "truthy (JObj kvs) = (kvs \<noteq> [])"

text \<open>Lists and dictionaries are unhashable: using one as a key raises TypeError.\<close>

fun hashable :: "json \<Rightarrow> bool" where
  "hashable (JArr xs) = False"
| "hashable (JObj kvs) = False"
| "hashable _ = True"

text \<open>
  Keys are compared with \<open>==\<close>, under which \<open>True == 1\<close> and \<open>False == 0\<close>.
\<close>

fun key_norm :: "json \<Rightarrow> json" where
  "key_norm (JBool b) = JInt (if b then 1 else 0)"
| "key_norm j = j"

definition key_eq :: "json \<Rightarrow> json \<Rightarrow> bool" where
  "key_eq a b = (key_norm a = key_norm b)"

type_synonym 'v pydict = "(json \<times> 'v) list"

fun dict_get :: "'v pydict \<Rightarrow> json \<Rightarrow> 'v option" where
  "dict_get [] k = None"
| "dict_get ((k', v) # d) k = (if key_eq k' k then Some v else dict_get d k)"

text \<open>
  \<open>d[k] = v\<close>: an existing key keeps its place (and the key object first stored),
  a new key goes to the end.
\<close>

fun dict_set :: "'v pydict \<Rightarrow> json \<Rightarrow> 'v \<Rightarrow> 'v pydict" where
  "dict_set [] k v = [(k, v)]"
| "dict_set ((k', v') # d) k v =
     (if key_eq k' k then (k', v) # d else (k', v') # dict_set d k v)"

text \<open>\<open>data.get(key, default)\<close>; only a dictionary has the method.\<close>

fun get :: "json \<Rightarrow> ustring \<Rightarrow> json \<Rightarrow> error + json" where
  "get (JObj kvs) k dflt = Inr (case map_of kvs k of None \<Rightarrow> dflt | Some v \<Rightarrow> v)"
| "get _ k dflt = Inl AttributeError"

subsection \<open>json.dumps\<close>

text \<open>
  The default encoder: separators \<open>", "\<close> and \<open>": "\<close>, \<open>ensure_ascii\<close> on, so that
  every character outside \<open>' '..'~'\<close>, the quote and the backslash are escaped.  A
  code point from \<open>0x10000\<close> on is written as its two surrogates, a surrogate that
  stands alone in the string as itself.  The text is ASCII, a list of \<open>char\<close>.
\<close>

definition hex_digit :: "nat \<Rightarrow> char" where
  "hex_digit n = ''0123456789abcdef'' ! (n mod 16)"

definition esc_u :: "nat \<Rightarrow> string" where
  "esc_u n = [CHR 0x5C, CHR ''u'', hex_digit (n div 4096), hex_digit (n div 256),
              hex_digit (n div 16), hex_digit n]"

definition esc_char :: "nat \<Rightarrow> string" where
  "esc_char c =
     (if c = 0x22 then [CHR 0x5C, CHR 0x22]
      else if c = 0x5C then [CHR 0x5C, CHR 0x5C]
      else if c = 0x0A then [CHR 0x5C, CHR ''n'']
      else if c = 0x0D then [CHR 0x5C, CHR ''r'']
      else if c = 0x09 then [CHR 0x5C, CHR ''t'']
      else if c = 0x08 then [CHR 0x5C, CHR ''b'']
      else if c = 0x0C then [CHR 0x5C, CHR ''f'']
      else if 32 \<le> c \<and> c \<le> 126 then [char_of c]
      else if c < 0x10000 then esc_u c
      else esc_u (0xD800 + ((c - 0x10000) div 1024) mod 1024)
           @ esc_u (0xDC00 + (c - 0x10000) mod 1024))"

definition dumps_str :: "ustring \<Rightarrow> string" where
  "dumps_str s = [CHR 0x22] @ concat (map esc_char s) @ [CHR 0x22]"

fun digits :: "nat \<Rightarrow> string" where
  "digits n =
     (if n < 10 then [''0123456789'' ! n]
      else digits (n div 10) @ [''0123456789'' ! (n mod 10)])"

declare digits.simps [simp del]

definition dumps_int :: "int \<Rightarrow> string" where
  "dumps_int i = (if i < 0 then CHR ''-'' # digits (nat (- i)) else digits (nat i))"

fun dumps_plain :: "json \<Rightarrow> string"
  and dumps_elems :: "json list \<Rightarrow> string"
  and dumps_items :: "(ustring \<times> json) list \<Rightarrow> string"
where
  "dumps_plain JNull = ''null''"
| "dumps_plain (JBool b) = (if b then ''true'' else ''false'')"
| "dumps_plain (JInt i) = dumps_int i"
| "dumps_plain (JStr s) = dumps_str s"
| "dumps_plain (JArr xs) = ''['' @ dumps_elems xs @ '']''"
| "dumps_plain (JObj kvs) = ''{'' @ dumps_items kvs @ ''}''"
| "dumps_elems [] = []"
| "dumps_elems [x] = dumps_plain x"
| "dumps_elems (x # y # xs) = dumps_plain x @ '', '' @ dumps_elems (y # xs)"
| "dumps_items [] = []"
| "dumps_items [(k, v)] = dumps_str k @ '': '' @ dumps_plain v"
| "dumps_items ((k, v) # kv # kvs) =
     dumps_str k @ '': '' @ dumps_plain v @ '', '' @ dumps_items (kv # kvs)"

text \<open>\<open>sort_keys=True\<close>: the items of every dictionary are written in key order.\<close>

fun sort_keys :: "json \<Rightarrow> json" where
  "sort_keys (JArr xs) = JArr (map sort_keys xs)"
| "sort_keys (JObj kvs) =
     JObj (sort_key fst (map (\<lambda>kv. (fst kv, sort_keys (snd kv))) kvs))"
| "sort_keys j = j"

definition dumps :: "bool \<Rightarrow> json \<Rightarrow> string" where
  "dumps sorted_keys j = dumps_plain (if sorted_keys then sort_keys j else j)"

subsection \<open>The audit store\<close>

text \<open>
  A row of the table \<open>events\<close>, as \<open>init_db\<close> declares it.  The table lives in a file:
  it is absent until \<open>init_db\<close> has run once.  \<open>id INTEGER PRIMARY KEY AUTOINCREMENT\<close>
  gives a new row the successor of the largest id the table has ever held, which
  SQLite keeps in \<open>sqlite_sequence\<close> (the field \<open>t_seq\<close>).
\<close>

record event =
  e_id :: nat
  e_ts :: string
  e_type :: string
  e_payload :: string
  e_operator :: string
  e_hash :: string

record table =
  t_rows :: "event list"
  t_seq :: nat

definition init_db :: "table option \<Rightarrow> table option" where
  "init_db db = (case db of None \<Rightarrow> Some \<lparr>t_rows = [], t_seq = 0\<rparr> | Some t \<Rightarrow> Some t)"

definition insert_event :: "table \<Rightarrow> string \<Rightarrow> string \<Rightarrow> string \<Rightarrow> string \<Rightarrow> string \<Rightarrow> table" where
  "insert_event t ts evt_type payload operator h =
     \<lparr>t_rows = t_rows t @ [\<lparr>e_id = Suc (t_seq t), e_ts = ts, e_type = evt_type,
                             e_payload = payload, e_operator = operator, e_hash = h\<rparr>],
      t_seq = Suc (t_seq t)\<rparr>"

text \<open>
  \<open>audit\<close>.  \<open>sha256\<close> stands for \<open>hashlib.sha256(...).hexdigest()\<close> and \<open>utcnow\<close> for
  \<open>datetime.utcnow().isoformat()\<close>.  The record is hashed before the store is
  opened; the insert fails with OperationalError when the table does not exist.
\<close>

definition audit_rec :: "string \<Rightarrow> string \<Rightarrow> json \<Rightarrow> string \<Rightarrow> json" where
  "audit_rec ts evt_type payload operator =
     JObj [(ustr ''ts'', JStr (ustr ts)), (ustr ''type'', JStr (ustr evt_type)),
           (ustr ''payload'', payload), (ustr ''operator'', JStr (ustr operator))]"

definition audit ::
  "(string \<Rightarrow> string) \<Rightarrow> string \<Rightarrow> string \<Rightarrow> json \<Rightarrow> string \<Rightarrow> table option
    \<Rightarrow> (error + string) \<times> table option" where
  "audit sha256 utcnow evt_type payload operator db =
     (let ts = utcnow @ ''Z'';
          h = sha256 (dumps True (audit_rec ts evt_type payload operator))
      in case db of
           None \<Rightarrow> (Inl OperationalError, None)
         | Some t \<Rightarrow>
             (Inr h, Some (insert_event t ts evt_type (dumps False payload) operator h)))"

subsection \<open>The agent registry\<close>

record agent =
  a_meta :: json
  a_last_seen :: rat
  a_status :: string
  a_task :: json

record state =
  AGENTS :: "agent pydict"
  DB :: "table option"

definition register_agent ::
  "(string \<Rightarrow> string) \<Rightarrow> rat \<Rightarrow> string \<Rightarrow> json \<Rightarrow> json \<Rightarrow> state \<Rightarrow> (error + unit) \<times> state" where
  "register_agent sha256 now utcnow agent_id meta st =
     (if \<not> hashable agent_id then (Inl TypeError, st)
      else
        let st1 = st\<lparr>AGENTS := dict_set (AGENTS st) agent_id
                     \<lparr>a_meta = meta, a_last_seen = now, a_status = ''idle'', a_task = JNull\<rparr>\<rparr>;
            (r, db') = audit sha256 utcnow ''register_agent''
                         (JObj [(ustr ''id'', agent_id), (ustr ''meta'', meta)]) ''swarm-core'' (DB st1)
        in (case r of Inl e \<Rightarrow> Inl e | Inr h \<Rightarrow> Inr (), st1\<lparr>DB := db'\<rparr>))"

definition update_heartbeat :: "rat \<Rightarrow> json \<Rightarrow> state \<Rightarrow> (error + unit) \<times> state" where
  "update_heartbeat now agent_id st =
     (if \<not> hashable agent_id then (Inl TypeError, st)
      else case dict_get (AGENTS st) agent_id of
             None \<Rightarrow> (Inr (), st)
           | Some a \<Rightarrow>
               (Inr (), st\<lparr>AGENTS := dict_set (AGENTS st) agent_id (a\<lparr>a_last_seen := now\<rparr>)\<rparr>))"

definition assign_task ::
  "(string \<Rightarrow> string) \<Rightarrow> string \<Rightarrow> json \<Rightarrow> json \<Rightarrow> state \<Rightarrow> (error + bool) \<times> state" where
  "assign_task sha256 utcnow agent_id task st =
     (if \<not> hashable agent_id then (Inl TypeError, st)
      else case dict_get (AGENTS st) agent_id of
             None \<Rightarrow> (Inr False, st)
           | Some a \<Rightarrow>
               let st1 = st\<lparr>AGENTS := dict_set (AGENTS st) agent_id
                            (a\<lparr>a_task := task, a_status := ''assigned''\<rparr>)\<rparr>;
                   (r, db') = audit sha256 utcnow ''task_assigned''
                                (JObj [(ustr ''id'', agent_id), (ustr ''task'', task)]) ''swarm-core'' (DB st1)
               in (case r of Inl e \<Rightarrow> Inl e | Inr h \<Rightarrow> Inr True, st1\<lparr>DB := db'\<rparr>))"

text \<open>
  \<open>list_agents\<close>.  An entry of \<open>AGENTS\<close> is a dictionary with the keys \<open>meta\<close>,
  \<open>last_seen\<close>, \<open>status\<close> and \<open>task\<close>, in this order; \<open>agent_items\<close> are its items.
  \<open>{**meta, "last_seen_delta": ...}\<close> copies them and adds one.  \<open>round(x, 1)\<close> rounds
  to the nearest tenth, a tie to the even one.
\<close>

datatype pyval = PJson json | PFloat rat

definition agent_items :: "agent \<Rightarrow> (string \<times> pyval) list" where
  "agent_items a =
     [(''meta'', PJson (a_meta a)), (''last_seen'', PFloat (a_last_seen a)),
      (''status'', PJson (JStr (ustr (a_status a)))), (''task'', PJson (a_task a))]"

definition round1 :: "rat \<Rightarrow> rat" where
  "round1 x =
     (let y = x * 10; f = \<lfloor>y\<rfloor>; r = y - of_int f
      in of_int (if r < 1 / 2 then f else if 1 / 2 < r then f + 1
                 else if even f then f else f + 1) / 10)"

definition list_agents :: "rat \<Rightarrow> state \<Rightarrow> (string \<times> pyval) list pydict \<times> state" where
  "list_agents now st =
     (map (\<lambda>(aid, a). (aid, agent_items a @
              [(''last_seen_delta'', PFloat (round1 (now - a_last_seen a)))])) (AGENTS st),
      st)"

subsection \<open>The routes\<close>

text \<open>
  The argument \<open>data\<close> is the decoded body, \<open>request.get_json(force=True)\<close>.  A
  response is its status code and its body; an exception that leaves the handler
  is the value \<open>Inl\<close>.
\<close>

type_synonym response = "nat \<times> json"

definition api_register ::
  "(string \<Rightarrow> string) \<Rightarrow> rat \<Rightarrow> string \<Rightarrow> json \<Rightarrow> state \<Rightarrow> (error + response) \<times> state" where
  "api_register sha256 now utcnow data st =
     (case get data (ustr ''agent_id'') JNull of
        Inl e \<Rightarrow> (Inl e, st)
      | Inr agent_id \<Rightarrow>
         (case get data (ustr ''meta'') (JObj []) of
            Inl e \<Rightarrow> (Inl e, st)
          | Inr meta \<Rightarrow>
              if \<not> truthy agent_id
              then (Inr (400, JObj [(ustr ''ok'', JBool False), (ustr ''error'', JStr (ustr ''missing agent_id''))]), st)
              else (case register_agent sha256 now utcnow agent_id meta st of
                      (Inl e, st') \<Rightarrow> (Inl e, st')
                    | (Inr u, st') \<Rightarrow> (Inr (200, JObj [(ustr ''ok'', JBool True)]), st'))))"

definition api_heartbeat :: "rat \<Rightarrow> json \<Rightarrow> state \<Rightarrow> (error + response) \<times> state" where
  "api_heartbeat now data st =
     (case get data (ustr ''agent_id'') JNull of
        Inl e \<Rightarrow> (Inl e, st)
      | Inr agent_id \<Rightarrow>
          if \<not> truthy agent_id
          then (Inr (400, JObj [(ustr ''ok'', JBool False), (ustr ''error'', JStr (ustr ''missing agent_id''))]), st)
          else (case update_heartbeat now agent_id st of
                  (Inl e, st') \<Rightarrow> (Inl e, st')
                | (Inr u, st') \<Rightarrow> (Inr (200, JObj [(ustr ''ok'', JBool True)]), st')))"

definition api_assign ::
  "(string \<Rightarrow> string) \<Rightarrow> string \<Rightarrow> json \<Rightarrow> state \<Rightarrow> (error + response) \<times> state" where
  "api_assign sha256 utcnow data st =
     (case get data (ustr ''agent_id'') JNull of
        Inl e \<Rightarrow> (Inl e, st)
      | Inr agent_id \<Rightarrow>
         (case get data (ustr ''task'') JNull of
            Inl e \<Rightarrow> (Inl e, st)
          | Inr task \<Rightarrow>
              if \<not> truthy agent_id \<or> \<not> truthy task
              then (Inr (400, JObj [(ustr ''ok'', JBool False), (ustr ''error'', JStr (ustr ''missing params''))]), st)
              else (case assign_task sha256 utcnow agent_id task st of
                      (Inl e, st') \<Rightarrow> (Inl e, st')
                    | (Inr success, st') \<Rightarrow> (Inr (200, JObj [(ustr ''ok'', JBool success)]), st'))))"

definition api_agents :: "rat \<Rightarrow> state \<Rightarrow> (string \<times> pyval) list pydict \<times> state" where
  "api_agents now st = list_agents now st"

text \<open>\<open>SELECT * FROM events ORDER BY id DESC LIMIT 50\<close>.\<close>

definition api_audit :: "state \<Rightarrow> (error + event list) \<times> state" where
  "api_audit st =
     (case DB st of
        None \<Rightarrow> (Inl OperationalError, st)
      | Some t \<Rightarrow> (Inr (take 50 (rev (sort_key e_id (t_rows t)))), st))"

subsection \<open>Sequences of calls\<close>

text \<open>
  The server runs one call after another on the same state; a call that raised has
  left the state as it was at that moment, and the next call starts from there.
\<close>

datatype call =
    InitDb
  | Audit string string json string
  | RegisterAgent rat string json json
  | UpdateHeartbeat rat json
  | AssignTask string json json
  | ListAgents rat
  | ApiRegister rat string json
  | ApiHeartbeat rat json
  | ApiAssign string json
  | ApiAgents rat
  | ApiAudit

fun exec :: "(string \<Rightarrow> string) \<Rightarrow> call \<Rightarrow> state \<Rightarrow> state" where
  "exec sha256 InitDb st = st\<lparr>DB := init_db (DB st)\<rparr>"
| "exec sha256 (Audit utcnow evt_type payload operator) st =
     st\<lparr>DB := snd (audit sha256 utcnow evt_type payload operator (DB st))\<rparr>"
| "exec sha256 (RegisterAgent now utcnow agent_id meta) st =
     snd (register_agent sha256 now utcnow agent_id meta st)"
| "exec sha256 (UpdateHeartbeat now agent_id) st = snd (update_heartbeat now agent_id st)"
| "exec sha256 (AssignTask utcnow agent_id task) st =
     snd (assign_task sha256 utcnow agent_id task st)"
| "exec sha256 (ListAgents now) st = snd (list_agents now st)"
| "exec sha256 (ApiRegister now utcnow data) st = snd (api_register sha256 now utcnow data st)"
| "exec sha256 (ApiHeartbeat now data) st = snd (api_heartbeat now data st)"
| "exec sha256 (ApiAssign utcnow data) st = snd (api_assign sha256 utcnow data st)"
| "exec sha256 (ApiAgents now) st = snd (api_agents now st)"
| "exec sha256 ApiAudit st = snd (api_audit st)"

fun run :: "(string \<Rightarrow> string) \<Rightarrow> call list \<Rightarrow> state \<Rightarrow> state" where
  "run sha256 [] st = st"
| "run sha256 (c # cs) st = run sha256 cs (exec sha256 c st)"

text \<open>The state of a process that has just started on a new database file.\<close>

definition boot :: state where
  "boot = \<lparr>AGENTS = [], DB = init_db None\<rparr>"

subsection \<open>Invariants of the state\<close>

text \<open>
  The ids of a table that only this program has written are \<open>1, 2, ..., n\<close> in the
  order of the rows, and \<open>sqlite_sequence\<close> holds \<open>n\<close>.
\<close>

definition ids_ok :: "table \<Rightarrow> bool" where
  "ids_ok t = (map e_id (t_rows t) = [1 ..< Suc (length (t_rows t))]
               \<and> t_seq t = length (t_rows t))"

definition db_inv :: "table option \<Rightarrow> bool" where
  "db_inv db = (case db of None \<Rightarrow> True | Some t \<Rightarrow> ids_ok t)"

text \<open>What one call can do to the store: nothing, create the table, or insert one row.\<close>

definition db_step :: "table option \<Rightarrow> table option \<Rightarrow> bool" where
  "db_step db db' =
     (db' = db \<or> db' = init_db db
      \<or> (case db of
            None \<Rightarrow> False
          | Some t \<Rightarrow>
              (case db' of
                 None \<Rightarrow> False
               | Some t' \<Rightarrow>
                   t_rows t' \<noteq> [] \<and> butlast (t_rows t') = t_rows t
                   \<and> e_id (last (t_rows t')) = Suc (t_seq t)
                   \<and> t_seq t' = Suc (t_seq t))))"

text \<open>An entry that holds a task has the status \<open>assigned\<close>.\<close>

definition task_inv :: "agent pydict \<Rightarrow> bool" where
  "task_inv d = list_all (\<lambda>(k, a). a_task a \<noteq> JNull \<longrightarrow> a_status a = ''assigned'') d"

subsection \<open>json.loads\<close>

text \<open>
  The program never decodes what it stored; a reader of the audit log does, to get
  the payload back from the column \<open>payload\<close>.  This is the decoder of the standard
  library for the texts that \<open>json.dumps\<close> writes and the values of the type \<open>json\<close>:
  whitespace between tokens is skipped, a string ends at its closing quote, a control
  character in it is an error, the escape of a high surrogate that is directly
  followed by the escape of a low surrogate gives the one code point of the pair, a
  number is \<open>-?(0|[1-9][0-9]*)\<close> (a fraction or an exponent makes a float, outside
  the type), and the pairs of an object are put into a dictionary one after the
  other.  The first argument of \<open>scan_once\<close>, \<open>scan_array\<close> and \<open>scan_object\<close> bounds
  the depth of the recursion; \<open>loads\<close> gives it the length of the text, which no
  nesting exceeds.
\<close>

definition is_ws :: "char \<Rightarrow> bool" where
  "is_ws c = (c = CHR '' '' \<or> c = CHR 0x09 \<or> c = CHR 0x0A \<or> c = CHR 0x0D)"

definition skip_ws :: "string \<Rightarrow> string" where
  "skip_ws s = dropWhile is_ws s"

definition is_digit :: "char \<Rightarrow> bool" where
  "is_digit c = (48 \<le> (of_char c :: nat) \<and> (of_char c :: nat) \<le> 57)"

definition hex_val :: "char \<Rightarrow> nat option" where
  "hex_val c =
     (let n = (of_char c :: nat)
      in if 48 \<le> n \<and> n \<le> 57 then Some (n - 48)
         else if 97 \<le> n \<and> n \<le> 102 then Some (n - 87)
         else if 65 \<le> n \<and> n \<le> 70 then Some (n - 55)
         else None)"

text \<open>\<open>_decode_uXXXX\<close>: the four hexadecimal digits after \<open>\u\<close>.\<close>

definition decode_u :: "string \<Rightarrow> nat option" where
  "decode_u s =
     (case s of
        h1 # h2 # h3 # h4 # r \<Rightarrow>
          (case (hex_val h1, hex_val h2, hex_val h3, hex_val h4) of
             (Some a, Some b, Some c, Some d) \<Rightarrow> Some (4096 * a + 256 * b + 16 * c + d)
           | _ \<Rightarrow> None)
      | _ \<Rightarrow> None)"

definition is_high :: "nat \<Rightarrow> bool" where
  "is_high c = (0xD800 \<le> c \<and> c \<le> 0xDBFF)"

definition is_low :: "nat \<Rightarrow> bool" where
  "is_low c = (0xDC00 \<le> c \<and> c \<le> 0xDFFF)"

definition unescape :: "char \<Rightarrow> nat option" where
  "unescape e =
     (if e = CHR 0x22 then Some 0x22
      else if e = CHR 0x5C then Some 0x5C
      else if e = CHR ''/'' then Some 0x2F
      else if e = CHR ''b'' then Some 0x08
      else if e = CHR ''f'' then Some 0x0C
      else if e = CHR ''n'' then Some 0x0A
      else if e = CHR ''r'' then Some 0x0D
      else if e = CHR ''t'' then Some 0x09
      else None)"

function scanstring :: "string \<Rightarrow> (ustring \<times> string) option" where
  "scanstring [] = None"
| "scanstring (c # cs) =
     (if c = CHR 0x22 then Some ([], cs)
      else if c = CHR 0x5C then
        (case cs of
           [] \<Rightarrow> None
         | e # cs1 \<Rightarrow>
             if e = CHR ''u'' then
               (case decode_u cs1 of
                  None \<Rightarrow> None
                | Some uni \<Rightarrow>
                    if is_high uni \<and> take 2 (drop 4 cs1) = [CHR 0x5C, CHR ''u''] then
                      (case decode_u (drop 6 cs1) of
                         None \<Rightarrow> None
                       | Some uni2 \<Rightarrow>
                           if is_low uni2
                           then map_option
                                  (apfst ((#) (0x10000 + ((uni - 0xD800) * 1024 + (uni2 - 0xDC00)))))
                                  (scanstring (drop 10 cs1))
                           else map_option (apfst ((#) uni)) (scanstring (drop 4 cs1)))
                    else map_option (apfst ((#) uni)) (scanstring (drop 4 cs1)))
             else (case unescape e of
                     None \<Rightarrow> None
                   | Some d \<Rightarrow> map_option (apfst ((#) d)) (scanstring cs1)))
      else if (of_char c :: nat) < 32 then None
      else map_option (apfst ((#) (of_char c))) (scanstring cs))"
  by pat_completeness auto
termination
  by (relation "measure length") auto

definition nat_of_digits :: "string \<Rightarrow> nat" where
  "nat_of_digits ds = foldl (\<lambda>a c. 10 * a + ((of_char c :: nat) - 48)) 0 ds"

definition next_is :: "char \<Rightarrow> string \<Rightarrow> bool" where
  "next_is c s = (case s of [] \<Rightarrow> False | x # r \<Rightarrow> x = c)"

definition scan_nat :: "string \<Rightarrow> (nat \<times> string) option" where
  "scan_nat s =
     (let ds = (if next_is CHR ''0'' s then ''0'' else takeWhile is_digit s);
          r = drop (length ds) s
      in if ds = [] \<or> next_is CHR ''.'' r \<or> next_is CHR ''e'' r \<or> next_is CHR ''E'' r
         then None
         else Some (nat_of_digits ds, r))"

definition scan_int :: "string \<Rightarrow> (int \<times> string) option" where
  "scan_int s =
     (if next_is CHR ''-'' s then map_option (apfst (\<lambda>n. - int n)) (scan_nat (tl s))
      else map_option (apfst int) (scan_nat s))"

fun str_dict_set :: "(ustring \<times> json) list \<Rightarrow> ustring \<Rightarrow> json \<Rightarrow> (ustring \<times> json) list" where
  "str_dict_set [] k v = [(k, v)]"
| "str_dict_set ((k', v') # d) k v =
     (if k' = k then (k', v) # d else (k', v') # str_dict_set d k v)"

definition dict_of_pairs :: "(ustring \<times> json) list \<Rightarrow> (ustring \<times> json) list" where
  "dict_of_pairs pairs = foldl (\<lambda>d kv. str_dict_set d (fst kv) (snd kv)) [] pairs"

fun scan_once :: "nat \<Rightarrow> string \<Rightarrow> (json \<times> string) option"
  and scan_array :: "nat \<Rightarrow> string \<Rightarrow> (json list \<times> string) option"
  and scan_object :: "nat \<Rightarrow> string \<Rightarrow> ((ustring \<times> json) list \<times> string) option"
where
  "scan_once 0 s = None"
| "scan_once (Suc n) s =
     (case s of
        [] \<Rightarrow> None
      | c # r \<Rightarrow>
          if c = CHR 0x22 then map_option (apfst JStr) (scanstring r)
          else if c = CHR ''{'' then
            (if next_is CHR ''}'' (skip_ws r) then Some (JObj [], tl (skip_ws r))
             else map_option (apfst (\<lambda>pairs. JObj (dict_of_pairs pairs)))
                    (scan_object n (skip_ws r)))
          else if c = CHR ''['' then
            (if next_is CHR '']'' (skip_ws r) then Some (JArr [], tl (skip_ws r))
             else map_option (apfst JArr) (scan_array n (skip_ws r)))
          else if take 4 s = ''null'' then Some (JNull, drop 4 s)
          else if take 4 s = ''true'' then Some (JBool True, drop 4 s)
          else if take 5 s = ''false'' then Some (JBool False, drop 5 s)
          else map_option (apfst JInt) (scan_int s))"
| "scan_array 0 s = None"
| "scan_array (Suc n) s =
     (case scan_once n s of
        None \<Rightarrow> None
      | Some (v, r) \<Rightarrow>
          (case skip_ws r of
             [] \<Rightarrow> None
           | c # r1 \<Rightarrow>
               if c = CHR '']'' then Some ([v], r1)
               else if c = CHR '','' then
                 (case scan_array n (skip_ws r1) of
                    None \<Rightarrow> None
                  | Some (vs, r2) \<Rightarrow> Some (v # vs, r2))
               else None))"
| "scan_object 0 s = None"
| "scan_object (Suc n) s =
     (case s of
        [] \<Rightarrow> None
      | q # r \<Rightarrow>
          if q \<noteq> CHR 0x22 then None
          else
            (case scanstring r of
               None \<Rightarrow> None
             | Some (k, r1) \<Rightarrow>
                 (case skip_ws r1 of
                    [] \<Rightarrow> None
                  | c # r2 \<Rightarrow>
                      if c \<noteq> CHR '':'' then None
                      else
                        (case scan_once n (skip_ws r2) of
                           None \<Rightarrow> None
                         | Some (v, r3) \<Rightarrow>
                             (case skip_ws r3 of
                                [] \<Rightarrow> None
                              | d # r4 \<Rightarrow>
                                  if d = CHR ''}'' then Some ([(k, v)], r4)
                                  else if d = CHR '','' then
                                    (case scan_object n (skip_ws r4) of
                                       None \<Rightarrow> None
                                     | Some (kvs, r5) \<Rightarrow> Some ((k, v) # kvs, r5))
                                  else None)))))"

definition loads :: "string \<Rightarrow> json option" where
  "loads s =
     (case scan_once (Suc (length s)) (skip_ws s) of
        None \<Rightarrow> None
      | Some (v, r) \<Rightarrow> if skip_ws r = [] then Some v else None)"

text \<open>
  A Python dictionary has no key twice, and a code point is below \<open>0x110000\<close>.  A
  string in which a high surrogate is directly followed by a low surrogate is a
  Python string as well, but not one that \<open>loads\<close> gives back: the two escapes that
  \<open>dumps\<close> writes for it are those of one code point.  \<open>wf_ustr\<close> holds of the strings
  without such a pair, \<open>wf_json\<close> of the values whose strings, keys included, are
  such.
\<close>

fun wf_ustr :: "ustring \<Rightarrow> bool" where
  "wf_ustr [] = True"
| "wf_ustr [c] = (c < 0x110000)"
| "wf_ustr (c # d # s) = (c < 0x110000 \<and> \<not> (is_high c \<and> is_low d) \<and> wf_ustr (d # s))"

fun wf_json :: "json \<Rightarrow> bool" where
  "wf_json (JStr s) = wf_ustr s"
| "wf_json (JArr xs) = list_all wf_json xs"
| "wf_json (JObj kvs) =
     (distinct (map fst kvs) \<and> list_all (\<lambda>kv. wf_ustr (fst kv) \<and> wf_json (snd kv)) kvs)"
| "wf_json j = True"

text \<open>
  Where a printed value may start, what may follow it inside a document, and
  whether a text goes on with the escape of a low surrogate.
\<close>

definition ends_value :: "string \<Rightarrow> bool" where
  "ends_value r = (r = [] \<or> next_is CHR '','' r \<or> next_is CHR '']'' r \<or> next_is CHR ''}'' r)"

definition starts_value :: "string \<Rightarrow> bool" where
  "starts_value s =
     (case s of [] \<Rightarrow> False | c # r \<Rightarrow> \<not> is_ws c \<and> c \<noteq> CHR '']'' \<and> c \<noteq> CHR ''}'')"

definition joins :: "string \<Rightarrow> bool" where
  "joins X = (take 2 X = [CHR 0x5C, CHR ''u'']
              \<and> (case decode_u (drop 2 X) of None \<Rightarrow> True | Some u \<Rightarrow> is_low u))"

subsection \<open>Checking a stored record\<close>

text \<open>
  The check the specification describes: decode the payload of the row, build the
  record \<open>{ts, type, payload, operator}\<close> from the row, serialise it with sorted
  keys and hash it.  \<open>db_verified\<close> says that every row of the table passes, and
  \<open>wf_call\<close> that the JSON arguments of a call are values that \<open>loads\<close> gives back.
\<close>

definition recompute_hash :: "(string \<Rightarrow> string) \<Rightarrow> event \<Rightarrow> string option" where
  "recompute_hash sha256 e =
     (case loads (e_payload e) of
        None \<Rightarrow> None
      | Some payload \<Rightarrow>
          Some (sha256 (dumps True (audit_rec (e_ts e) (e_type e) payload (e_operator e)))))"

definition db_verified :: "(string \<Rightarrow> string) \<Rightarrow> table option \<Rightarrow> bool" where
  "db_verified sha256 db =
     (case db of
        None \<Rightarrow> True
      | Some t \<Rightarrow> list_all (\<lambda>e. recompute_hash sha256 e = Some (e_hash e)) (t_rows t))"


section \<open>Properties\<close>

subsection \<open>Strings\<close>

lemma ustr_eq_iff [simp]: "ustr a = ustr b \<longleftrightarrow> a = b"
proof -
  have "inj (of_char :: char \<Rightarrow> nat)"
    by (rule injI) simp
  then show ?thesis
    by (simp add: ustr_def inj_map_eq_map)
qed

lemma ustr_eq_Nil [simp]: "ustr s = [] \<longleftrightarrow> s = []" "[] = ustr s \<longleftrightarrow> s = []"
  by (auto simp: ustr_def)

subsection \<open>Dictionaries\<close>

lemma key_eq_refl [simp]: "key_eq k k"
  by (simp add: key_eq_def)

lemma key_eq_trans: "key_eq a b \<Longrightarrow> key_eq b c \<Longrightarrow> key_eq a c"
  by (simp add: key_eq_def)

lemma key_eq_sym: "key_eq a b \<Longrightarrow> key_eq b a"
  by (simp add: key_eq_def)

lemma dict_get_set_same [simp]: "dict_get (dict_set d k v) k = Some v"
  by (induction d) auto

lemma dict_get_set_other:
  "\<not> key_eq k k' \<Longrightarrow> dict_get (dict_set d k v) k' = dict_get d k'"
proof (induction d)
  case Nil
  then show ?case by simp
next
  case (Cons p d)
  obtain k0 v0 where p: "p = (k0, v0)" by (cases p)
  show ?case
  proof (cases "key_eq k0 k")
    case True
    with Cons.prems have "\<not> key_eq k0 k'"
      using key_eq_sym key_eq_trans by blast
    with True p show ?thesis by simp
  next
    case False
    with Cons p show ?thesis by simp
  qed
qed

lemma dict_set_keys: "dict_get d k = Some a \<Longrightarrow> map fst (dict_set d k v) = map fst d"
  by (induction d) (auto split: if_splits)

subsection \<open>The audit store\<close>

lemma audit_Some:
  "audit sha256 utcnow evt_type payload operator (Some t) =
     (Inr (sha256 (dumps True (audit_rec (utcnow @ ''Z'') evt_type payload operator))),
      Some (insert_event t (utcnow @ ''Z'') evt_type (dumps False payload) operator
              (sha256 (dumps True (audit_rec (utcnow @ ''Z'') evt_type payload operator)))))"
  by (simp add: audit_def Let_def)

lemma audit_None:
  "audit sha256 utcnow evt_type payload operator None = (Inl OperationalError, None)"
  by (simp add: audit_def Let_def)

lemma audit_changes_only_on_success:
  "snd (audit sha256 utcnow evt_type payload operator db) \<noteq> db
     \<Longrightarrow> \<exists>h. fst (audit sha256 utcnow evt_type payload operator db) = Inr h"
  by (cases db) (simp_all add: audit_Some audit_None)

subsection \<open>Assignment to an unknown agent\<close>




subsection \<open>Registration\<close>

text \<open>
  C3.  For a hashable id (a string, in particular) \<open>register_agent\<close> sets the entry
  of the id to \<open>{meta, last_seen = now, status = idle, task = None}\<close> whatever was
  stored before, and every other entry is as before.  When the table of the audit
  store exists the call raises nothing and the store has exactly one more row, with
  the next id, the type \<open>register_agent\<close> and the payload \<open>{id, meta}\<close>.
\<close>

theorem register_agent_overwrites_and_audits:
  assumes "hashable agent_id"
  shows "dict_get (AGENTS (snd (register_agent sha256 now utcnow agent_id meta st))) agent_id
        = Some \<lparr>a_meta = meta, a_last_seen = now, a_status = ''idle'', a_task = JNull\<rparr>
    \<and> (\<forall>k. \<not> key_eq agent_id k \<longrightarrow>
          dict_get (AGENTS (snd (register_agent sha256 now utcnow agent_id meta st))) k
            = dict_get (AGENTS st) k)
    \<and> (\<forall>t. DB st = Some t \<longrightarrow>
          fst (register_agent sha256 now utcnow agent_id meta st) = Inr ()
          \<and> DB (snd (register_agent sha256 now utcnow agent_id meta st))
              = Some \<lparr>t_rows = t_rows t @
                   [\<lparr>e_id = Suc (t_seq t), e_ts = utcnow @ ''Z'', e_type = ''register_agent'',
                     e_payload = dumps False (JObj [(ustr ''id'', agent_id), (ustr ''meta'', meta)]),
                     e_operator = ''swarm-core'',
                     e_hash = sha256 (dumps True (audit_rec (utcnow @ ''Z'') ''register_agent''
                                (JObj [(ustr ''id'', agent_id), (ustr ''meta'', meta)]) ''swarm-core''))\<rparr>],
                   t_seq = Suc (t_seq t)\<rparr>)"
proof (intro conjI allI impI)
  show "dict_get (AGENTS (snd (register_agent sha256 now utcnow agent_id meta st))) agent_id
        = Some \<lparr>a_meta = meta, a_last_seen = now, a_status = ''idle'', a_task = JNull\<rparr>"
    using assms by (simp add: register_agent_def Let_def split_def)
next
  fix k
  assume "\<not> key_eq agent_id k"
  then show "dict_get (AGENTS (snd (register_agent sha256 now utcnow agent_id meta st))) k
            = dict_get (AGENTS st) k"
    using assms by (simp add: register_agent_def Let_def split_def dict_get_set_other)
next
  fix t
  assume t: "DB st = Some t"
  then show "fst (register_agent sha256 now utcnow agent_id meta st) = Inr ()"
    using assms by (simp add: register_agent_def audit_Some)
  from t show "DB (snd (register_agent sha256 now utcnow agent_id meta st))
              = Some \<lparr>t_rows = t_rows t @
                   [\<lparr>e_id = Suc (t_seq t), e_ts = utcnow @ ''Z'', e_type = ''register_agent'',
                     e_payload = dumps False (JObj [(ustr ''id'', agent_id), (ustr ''meta'', meta)]),
                     e_operator = ''swarm-core'',
                     e_hash = sha256 (dumps True (audit_rec (utcnow @ ''Z'') ''register_agent''
                                (JObj [(ustr ''id'', agent_id), (ustr ''meta'', meta)]) ''swarm-core''))\<rparr>],
                   t_seq = Suc (t_seq t)\<rparr>"
    using assms by (simp add: register_agent_def audit_Some insert_event_def)
qed

theorem register_agent_overwrites_and_audits_witness:
  "hashable (JStr (ustr ''a1''))
   \<and> DB \<lparr>AGENTS = [(JStr (ustr ''a1''), \<lparr>a_meta = JObj [], a_last_seen = 1,
                       a_status = ''assigned'', a_task = JStr (ustr ''patrol'')\<rparr>)],
         DB = Some \<lparr>t_rows = [], t_seq = 0\<rparr>\<rparr> = Some \<lparr>t_rows = [], t_seq = 0\<rparr>
   \<and> dict_get (AGENTS (snd (register_agent id 7 ''2026-01-01T00:00:00'' (JStr (ustr ''a1''))
          (JObj [(ustr ''role'', JStr (ustr ''scout''))])
          \<lparr>AGENTS = [(JStr (ustr ''a1''), \<lparr>a_meta = JObj [], a_last_seen = 1,
                       a_status = ''assigned'', a_task = JStr (ustr ''patrol'')\<rparr>)],
            DB = Some \<lparr>t_rows = [], t_seq = 0\<rparr>\<rparr>))) (JStr (ustr ''a1''))
        = Some \<lparr>a_meta = JObj [(ustr ''role'', JStr (ustr ''scout''))], a_last_seen = 7,
                a_status = ''idle'', a_task = JNull\<rparr>"
proof -
  let ?st = "\<lparr>AGENTS = [(JStr (ustr ''a1''), \<lparr>a_meta = JObj [], a_last_seen = 1,
                       a_status = ''assigned'', a_task = JStr (ustr ''patrol'')\<rparr>)],
              DB = Some \<lparr>t_rows = [], t_seq = 0\<rparr>\<rparr>"
  have h1: "hashable (JStr (ustr ''a1''))" by simp
  have h2: "DB ?st = Some \<lparr>t_rows = [], t_seq = 0\<rparr>" by simp
  from register_agent_overwrites_and_audits
         [OF h1, where st = ?st and now = 7 and meta = "JObj [(ustr ''role'', JStr (ustr ''scout''))]"
            and ?sha256.0 = id and utcnow = "''2026-01-01T00:00:00''"] h1 h2
  show ?thesis by blast
qed

subsection \<open>Assignment\<close>

text \<open>
  C4.  For an id that is not in the registry \<open>assign_task\<close> returns \<open>False\<close> and the
  state is the one before the call.  For an id in the registry, the entry gets the
  status \<open>assigned\<close> and the given task, every other entry is as before, and the
  call returns \<open>True\<close> when the table of the audit store exists.
\<close>

theorem assign_task_unknown_fails_known_succeeds:
  assumes "hashable agent_id"
  shows "(dict_get (AGENTS st) agent_id = None \<longrightarrow>
            assign_task sha256 utcnow agent_id task st = (Inr False, st))
    \<and> (\<forall>a. dict_get (AGENTS st) agent_id = Some a \<longrightarrow>
          dict_get (AGENTS (snd (assign_task sha256 utcnow agent_id task st))) agent_id
              = Some (a\<lparr>a_task := task, a_status := ''assigned''\<rparr>)
          \<and> (\<forall>k. \<not> key_eq agent_id k \<longrightarrow>
                dict_get (AGENTS (snd (assign_task sha256 utcnow agent_id task st))) k
                  = dict_get (AGENTS st) k)
          \<and> (\<forall>t. DB st = Some t \<longrightarrow>
                fst (assign_task sha256 utcnow agent_id task st) = Inr True))"
  using assms
  by (auto simp: assign_task_def Let_def split_def audit_Some dict_get_set_other)

theorem assign_task_unknown_fails_known_succeeds_witness:
  "hashable (JStr (ustr ''a1''))
   \<and> fst (assign_task id ''2026-01-01T00:00:00'' (JStr (ustr ''a1'')) (JStr (ustr ''patrol''))
        \<lparr>AGENTS = [(JStr (ustr ''a1''), \<lparr>a_meta = JObj [], a_last_seen = 1,
                     a_status = ''idle'', a_task = JNull\<rparr>)],
          DB = Some \<lparr>t_rows = [], t_seq = 0\<rparr>\<rparr>) = Inr True
   \<and> assign_task id ''2026-01-01T00:00:00'' (JStr (ustr ''ghost'')) (JStr (ustr ''x''))
        \<lparr>AGENTS = [(JStr (ustr ''a1''), \<lparr>a_meta = JObj [], a_last_seen = 1,
                     a_status = ''idle'', a_task = JNull\<rparr>)],
          DB = Some \<lparr>t_rows = [], t_seq = 0\<rparr>\<rparr>
      = (Inr False,
         \<lparr>AGENTS = [(JStr (ustr ''a1''), \<lparr>a_meta = JObj [], a_last_seen = 1,
                     a_status = ''idle'', a_task = JNull\<rparr>)],
          DB = Some \<lparr>t_rows = [], t_seq = 0\<rparr>\<rparr>)"
proof -
  let ?a = "\<lparr>a_meta = JObj [], a_last_seen = 1, a_status = ''idle'', a_task = JNull\<rparr>"
  let ?st = "\<lparr>AGENTS = [(JStr (ustr ''a1''), ?a)], DB = Some \<lparr>t_rows = [], t_seq = 0\<rparr>\<rparr>"
  have h1: "hashable (JStr (ustr ''a1''))" by simp
  have h2: "hashable (JStr (ustr ''ghost''))" by simp
  have k: "dict_get (AGENTS ?st) (JStr (ustr ''a1'')) = Some ?a \<and> DB ?st = Some \<lparr>t_rows = [], t_seq = 0\<rparr>"
    by simp
  have u: "dict_get (AGENTS ?st) (JStr (ustr ''ghost'')) = None"
    by (simp add: key_eq_def)
  from assign_task_unknown_fails_known_succeeds [OF h1, of ?st id "''2026-01-01T00:00:00''" "JStr (ustr ''patrol'')"] k
  have c1: "fst (assign_task id ''2026-01-01T00:00:00'' (JStr (ustr ''a1'')) (JStr (ustr ''patrol'')) ?st) = Inr True"
    by blast
  from assign_task_unknown_fails_known_succeeds [OF h2, of ?st id "''2026-01-01T00:00:00''" "JStr (ustr ''x'')"] u
  have c2: "assign_task id ''2026-01-01T00:00:00'' (JStr (ustr ''ghost'')) (JStr (ustr ''x'')) ?st = (Inr False, ?st)"
    by blast
  from h1 c1 c2 show ?thesis by blast
qed

subsection \<open>Heartbeat\<close>

text \<open>
  C5.  A heartbeat for a (hashable) id that is not in the registry changes nothing,
  neither the registry nor the store, and raises nothing; the route answers \<open>200\<close>
  with \<open>{"ok": true}\<close>.  For an id in the registry the entry gets \<open>last_seen = now\<close>
  and nothing else changes.
\<close>

theorem heartbeat_unknown_is_silent_known_is_refreshed:
  assumes "hashable agent_id"
  shows "(dict_get (AGENTS st) agent_id = None \<longrightarrow>
            update_heartbeat now agent_id st = (Inr (), st)
            \<and> (\<forall>data. get data (ustr ''agent_id'') JNull = Inr agent_id \<and> truthy agent_id \<longrightarrow>
                  api_heartbeat now data st = (Inr (200, JObj [(ustr ''ok'', JBool True)]), st)))
    \<and> (\<forall>a. dict_get (AGENTS st) agent_id = Some a \<longrightarrow>
          fst (update_heartbeat now agent_id st) = Inr ()
          \<and> dict_get (AGENTS (snd (update_heartbeat now agent_id st))) agent_id
              = Some (a\<lparr>a_last_seen := now\<rparr>)
          \<and> (\<forall>k. \<not> key_eq agent_id k \<longrightarrow>
                dict_get (AGENTS (snd (update_heartbeat now agent_id st))) k
                  = dict_get (AGENTS st) k)
          \<and> DB (snd (update_heartbeat now agent_id st)) = DB st)"
  using assms
  by (auto simp: update_heartbeat_def api_heartbeat_def dict_get_set_other)

theorem heartbeat_unknown_is_silent_known_is_refreshed_witness:
  "hashable (JStr (ustr ''ghost''))
   \<and> dict_get (AGENTS boot) (JStr (ustr ''ghost'')) = None
   \<and> get (JObj [(ustr ''agent_id'', JStr (ustr ''ghost''))]) (ustr ''agent_id'') JNull = Inr (JStr (ustr ''ghost''))
   \<and> truthy (JStr (ustr ''ghost''))
   \<and> update_heartbeat 5 (JStr (ustr ''ghost'')) boot = (Inr (), boot)
   \<and> api_heartbeat 5 (JObj [(ustr ''agent_id'', JStr (ustr ''ghost''))]) boot
        = (Inr (200, JObj [(ustr ''ok'', JBool True)]), boot)"
proof -
  have h: "hashable (JStr (ustr ''ghost''))" by simp
  have u: "dict_get (AGENTS boot) (JStr (ustr ''ghost'')) = None" by (simp add: boot_def)
  have g: "get (JObj [(ustr ''agent_id'', JStr (ustr ''ghost''))]) (ustr ''agent_id'') JNull = Inr (JStr (ustr ''ghost''))"
    by simp
  have t: "truthy (JStr (ustr ''ghost''))" by simp
  from heartbeat_unknown_is_silent_known_is_refreshed [OF h, of boot 5] u g t
  have c: "update_heartbeat 5 (JStr (ustr ''ghost'')) boot = (Inr (), boot)
           \<and> api_heartbeat 5 (JObj [(ustr ''agent_id'', JStr (ustr ''ghost''))]) boot
                = (Inr (200, JObj [(ustr ''ok'', JBool True)]), boot)"
    by blast
  from h u g t c show ?thesis by blast
qed

subsection \<open>Validation at the routes\<close>

lemma get_without_key:
  "get (JObj (filter (\<lambda>kv. fst kv \<noteq> k) kvs)) k dflt = Inr dflt"
  by (induction kvs) auto

lemma map_of_filter_other:
  "k' \<noteq> k \<Longrightarrow> map_of (filter (\<lambda>kv. fst kv \<noteq> k) kvs) k' = map_of kvs k'"
  by (induction kvs) auto

lemma get_filter_other:
  "k' \<noteq> k \<Longrightarrow> get (JObj (filter (\<lambda>kv. fst kv \<noteq> k) kvs)) k' dflt = get (JObj kvs) k' dflt"
  by (simp add: map_of_filter_other)

text \<open>
  C10.  Let the body be a dictionary.  If its \<open>agent_id\<close> is falsy (absent, \<open>None\<close>,
  \<open>""\<close>, \<open>0\<close>, \<open>False\<close>, \<open>[]\<close>, \<open>{}\<close>), each of the three routes answers \<open>400\<close> and the
  state is the one before the call: no core function ran, the registry and the store
  are untouched.  The same holds for \<open>/api/assign\<close> when \<open>task\<close> is falsy.  The answer
  is the one the route gives to the body with the field removed.
\<close>

theorem routes_reject_falsy_fields:
  "(get (JObj kvs) (ustr ''agent_id'') JNull = Inr v \<and> \<not> truthy v \<longrightarrow>
      api_register sha256 now utcnow (JObj kvs) st
        = (Inr (400, JObj [(ustr ''ok'', JBool False), (ustr ''error'', JStr (ustr ''missing agent_id''))]), st)
      \<and> api_heartbeat now (JObj kvs) st
        = (Inr (400, JObj [(ustr ''ok'', JBool False), (ustr ''error'', JStr (ustr ''missing agent_id''))]), st)
      \<and> api_assign sha256 utcnow (JObj kvs) st
        = (Inr (400, JObj [(ustr ''ok'', JBool False), (ustr ''error'', JStr (ustr ''missing params''))]), st)
      \<and> api_register sha256 now utcnow (JObj kvs) st
        = api_register sha256 now utcnow (JObj (filter (\<lambda>kv. fst kv \<noteq> ustr ''agent_id'') kvs)) st
      \<and> api_heartbeat now (JObj kvs) st
        = api_heartbeat now (JObj (filter (\<lambda>kv. fst kv \<noteq> ustr ''agent_id'') kvs)) st
      \<and> api_assign sha256 utcnow (JObj kvs) st
        = api_assign sha256 utcnow (JObj (filter (\<lambda>kv. fst kv \<noteq> ustr ''agent_id'') kvs)) st)
   \<and> (get (JObj kvs) (ustr ''task'') JNull = Inr w \<and> \<not> truthy w \<longrightarrow>
      api_assign sha256 utcnow (JObj kvs) st
        = (Inr (400, JObj [(ustr ''ok'', JBool False), (ustr ''error'', JStr (ustr ''missing params''))]), st)
      \<and> api_assign sha256 utcnow (JObj kvs) st
        = api_assign sha256 utcnow (JObj (filter (\<lambda>kv. fst kv \<noteq> ustr ''task'') kvs)) st)"
proof (intro conjI impI)
  assume a: "get (JObj kvs) (ustr ''agent_id'') JNull = Inr v \<and> \<not> truthy v"
  let ?kvs' = "filter (\<lambda>kv. fst kv \<noteq> ustr ''agent_id'') kvs"
  have g': "get (JObj ?kvs') (ustr ''agent_id'') JNull = Inr JNull"
    by (rule get_without_key)
  have m: "\<exists>x. get (JObj kvs) (ustr ''meta'') (JObj []) = Inr x"
    and m': "\<exists>x. get (JObj ?kvs') (ustr ''meta'') (JObj []) = Inr x"
    and t: "\<exists>x. get (JObj kvs) (ustr ''task'') JNull = Inr x"
    and t': "\<exists>x. get (JObj ?kvs') (ustr ''task'') JNull = Inr x"
    by simp_all
  show r: "api_register sha256 now utcnow (JObj kvs) st
        = (Inr (400, JObj [(ustr ''ok'', JBool False), (ustr ''error'', JStr (ustr ''missing agent_id''))]), st)"
    using a m unfolding api_register_def by auto
  show h: "api_heartbeat now (JObj kvs) st
        = (Inr (400, JObj [(ustr ''ok'', JBool False), (ustr ''error'', JStr (ustr ''missing agent_id''))]), st)"
    using a unfolding api_heartbeat_def by auto
  show s: "api_assign sha256 utcnow (JObj kvs) st
        = (Inr (400, JObj [(ustr ''ok'', JBool False), (ustr ''error'', JStr (ustr ''missing params''))]), st)"
    using a t unfolding api_assign_def by auto
  have "api_register sha256 now utcnow (JObj ?kvs') st
        = (Inr (400, JObj [(ustr ''ok'', JBool False), (ustr ''error'', JStr (ustr ''missing agent_id''))]), st)"
    using g' m' unfolding api_register_def by auto
  with r show "api_register sha256 now utcnow (JObj kvs) st
        = api_register sha256 now utcnow (JObj ?kvs') st" by simp
  have "api_heartbeat now (JObj ?kvs') st
        = (Inr (400, JObj [(ustr ''ok'', JBool False), (ustr ''error'', JStr (ustr ''missing agent_id''))]), st)"
    using g' unfolding api_heartbeat_def by auto
  with h show "api_heartbeat now (JObj kvs) st = api_heartbeat now (JObj ?kvs') st" by simp
  have "api_assign sha256 utcnow (JObj ?kvs') st
        = (Inr (400, JObj [(ustr ''ok'', JBool False), (ustr ''error'', JStr (ustr ''missing params''))]), st)"
    using g' t' unfolding api_assign_def by auto
  with s show "api_assign sha256 utcnow (JObj kvs) st
        = api_assign sha256 utcnow (JObj ?kvs') st" by simp
next
  assume a: "get (JObj kvs) (ustr ''task'') JNull = Inr w \<and> \<not> truthy w"
  let ?kvs' = "filter (\<lambda>kv. fst kv \<noteq> ustr ''task'') kvs"
  have g': "get (JObj ?kvs') (ustr ''task'') JNull = Inr JNull"
    by (rule get_without_key)
  have i: "\<exists>x. get (JObj kvs) (ustr ''agent_id'') JNull = Inr x"
    and i': "\<exists>x. get (JObj ?kvs') (ustr ''agent_id'') JNull = Inr x"
    by simp_all
  show s: "api_assign sha256 utcnow (JObj kvs) st
        = (Inr (400, JObj [(ustr ''ok'', JBool False), (ustr ''error'', JStr (ustr ''missing params''))]), st)"
    using a i unfolding api_assign_def by auto
  have "api_assign sha256 utcnow (JObj ?kvs') st
        = (Inr (400, JObj [(ustr ''ok'', JBool False), (ustr ''error'', JStr (ustr ''missing params''))]), st)"
    using g' i' unfolding api_assign_def by auto
  with s show "api_assign sha256 utcnow (JObj kvs) st
        = api_assign sha256 utcnow (JObj ?kvs') st" by simp
qed

theorem routes_reject_falsy_fields_witness:
  "get (JObj [(ustr ''agent_id'', JStr []), (ustr ''task'', JStr (ustr ''patrol''))]) (ustr ''agent_id'') JNull
      = Inr (JStr [])
   \<and> \<not> truthy (JStr [])
   \<and> api_register id 5 ''2026-01-01T00:00:00''
        (JObj [(ustr ''agent_id'', JStr []), (ustr ''task'', JStr (ustr ''patrol''))]) boot
      = (Inr (400, JObj [(ustr ''ok'', JBool False), (ustr ''error'', JStr (ustr ''missing agent_id''))]), boot)
   \<and> get (JObj [(ustr ''agent_id'', JStr (ustr ''a1'')), (ustr ''task'', JInt 0)]) (ustr ''task'') JNull = Inr (JInt 0)
   \<and> \<not> truthy (JInt 0)
   \<and> api_assign id ''2026-01-01T00:00:00''
        (JObj [(ustr ''agent_id'', JStr (ustr ''a1'')), (ustr ''task'', JInt 0)]) boot
      = (Inr (400, JObj [(ustr ''ok'', JBool False), (ustr ''error'', JStr (ustr ''missing params''))]), boot)"
proof -
  have g1: "get (JObj [(ustr ''agent_id'', JStr []), (ustr ''task'', JStr (ustr ''patrol''))]) (ustr ''agent_id'') JNull
              = Inr (JStr []) \<and> \<not> truthy (JStr [])"
    by simp
  have g2: "get (JObj [(ustr ''agent_id'', JStr (ustr ''a1'')), (ustr ''task'', JInt 0)]) (ustr ''task'') JNull = Inr (JInt 0)
              \<and> \<not> truthy (JInt 0)"
    by simp
  from routes_reject_falsy_fields
         [where kvs = "[(ustr ''agent_id'', JStr []), (ustr ''task'', JStr (ustr ''patrol''))]" and v = "JStr []"
            and ?sha256.0 = id and now = 5 and utcnow = "''2026-01-01T00:00:00''" and st = boot] g1
  have c1: "api_register id 5 ''2026-01-01T00:00:00''
        (JObj [(ustr ''agent_id'', JStr []), (ustr ''task'', JStr (ustr ''patrol''))]) boot
      = (Inr (400, JObj [(ustr ''ok'', JBool False), (ustr ''error'', JStr (ustr ''missing agent_id''))]), boot)"
    by blast
  from routes_reject_falsy_fields
         [where kvs = "[(ustr ''agent_id'', JStr (ustr ''a1'')), (ustr ''task'', JInt 0)]" and w = "JInt 0"
            and ?sha256.0 = id and utcnow = "''2026-01-01T00:00:00''" and st = boot] g2
  have c2: "api_assign id ''2026-01-01T00:00:00''
        (JObj [(ustr ''agent_id'', JStr (ustr ''a1'')), (ustr ''task'', JInt 0)]) boot
      = (Inr (400, JObj [(ustr ''ok'', JBool False), (ustr ''error'', JStr (ustr ''missing params''))]), boot)"
    by blast
  from g1 g2 c1 c2 show ?thesis by blast
qed

subsection \<open>The snapshot\<close>

lemma round1_tenths: "\<exists>n::int. round1 x = of_int n / 10"
  unfolding round1_def Let_def by blast

lemma round1_near: "\<bar>round1 x - x\<bar> \<le> 1 / 20"
proof -
  define f where "f = \<lfloor>x * 10\<rfloor>"
  define r where "r = x * 10 - of_int f"
  have r0: "0 \<le> r" and r1: "r < 1"
    unfolding r_def f_def by linarith+
  have x: "x = (of_int f + r) / 10"
    unfolding r_def by simp
  have "round1 x = of_int (if r < 1 / 2 then f else if 1 / 2 < r then f + 1
                           else if even f then f else f + 1) / 10"
    unfolding round1_def Let_def f_def r_def by simp
  then show ?thesis
    using r0 r1 by (subst (2) x) (auto simp: abs_if field_simps)
qed

lemma list_agents_get:
  "dict_get (fst (list_agents now st)) k =
     map_option (\<lambda>a. agent_items a @
        [(''last_seen_delta'', PFloat (round1 (now - a_last_seen a)))]) (dict_get (AGENTS st) k)"
proof -
  have "dict_get (map (\<lambda>(aid, a). (aid, g a)) d) k = map_option g (dict_get d k)"
    for g :: "agent \<Rightarrow> (string \<times> pyval) list" and d
    by (induction d) auto
  then show ?thesis by (simp add: list_agents_def)
qed

text \<open>
  C8 (as stated, refuted).  The claim says that the snapshot of an agent has exactly
  the fields \<open>metadata\<close>, \<open>status\<close>, \<open>task\<close> and \<open>last_seen_delta\<close>.  After one
  registration the snapshot of the agent has five keys: \<open>{**meta, ...}\<close> copies the
  whole entry, \<open>last_seen\<close> included.
\<close>

theorem list_agents_has_last_seen:
  "map_option (map fst)
     (dict_get (fst (list_agents 12 (exec id (RegisterAgent 10 ''2026-01-01T00:00:00''
        (JStr (ustr ''a1'')) (JObj [(ustr ''role'', JStr (ustr ''scout''))])) boot))) (JStr (ustr ''a1'')))
   = Some [''meta'', ''last_seen'', ''status'', ''task'', ''last_seen_delta'']"
  by (simp add: list_agents_get register_agent_def boot_def init_db_def audit_Some
        agent_items_def)

text \<open>
  C8 (amended).  \<open>list_agents\<close> leaves the state as it is and returns a dictionary
  with the keys of the registry, in the same order.  The value for a registered id
  has the five fields \<open>meta\<close>, \<open>last_seen\<close>, \<open>status\<close>, \<open>task\<close> as stored and
  \<open>last_seen_delta\<close>, which is \<open>now - last_seen\<close> rounded to one decimal place: a
  whole number of tenths, at most half a tenth away.
\<close>

theorem list_agents_snapshot:
  "snd (list_agents now st) = st
   \<and> map fst (fst (list_agents now st)) = map fst (AGENTS st)
   \<and> (\<forall>k a. dict_get (AGENTS st) k = Some a \<longrightarrow>
        (\<exists>d. dict_get (fst (list_agents now st)) k
               = Some [(''meta'', PJson (a_meta a)), (''last_seen'', PFloat (a_last_seen a)),
                       (''status'', PJson (JStr (ustr (a_status a)))), (''task'', PJson (a_task a)),
                       (''last_seen_delta'', PFloat d)]
           \<and> (\<exists>n::int. d = of_int n / 10)
           \<and> \<bar>d - (now - a_last_seen a)\<bar> \<le> 1 / 20))
   \<and> (\<forall>k. dict_get (AGENTS st) k = None \<longrightarrow> dict_get (fst (list_agents now st)) k = None)"
proof (intro conjI allI impI)
  show "snd (list_agents now st) = st"
    by (simp add: list_agents_def)
  show "map fst (fst (list_agents now st)) = map fst (AGENTS st)"
    by (simp add: list_agents_def case_prod_unfold comp_def)
next
  fix k a
  assume "dict_get (AGENTS st) k = Some a"
  then have "dict_get (fst (list_agents now st)) k
               = Some [(''meta'', PJson (a_meta a)), (''last_seen'', PFloat (a_last_seen a)),
                       (''status'', PJson (JStr (ustr (a_status a)))), (''task'', PJson (a_task a)),
                       (''last_seen_delta'', PFloat (round1 (now - a_last_seen a)))]"
    by (simp add: list_agents_get agent_items_def)
  with round1_tenths [of "now - a_last_seen a"] round1_near [of "now - a_last_seen a"]
  show "\<exists>d. dict_get (fst (list_agents now st)) k
               = Some [(''meta'', PJson (a_meta a)), (''last_seen'', PFloat (a_last_seen a)),
                       (''status'', PJson (JStr (ustr (a_status a)))), (''task'', PJson (a_task a)),
                       (''last_seen_delta'', PFloat d)]
           \<and> (\<exists>n::int. d = of_int n / 10)
           \<and> \<bar>d - (now - a_last_seen a)\<bar> \<le> 1 / 20"
    by blast
next
  fix k
  assume "dict_get (AGENTS st) k = None"
  then show "dict_get (fst (list_agents now st)) k = None"
    by (simp add: list_agents_get)
qed

theorem list_agents_snapshot_witness:
  "dict_get (AGENTS \<lparr>AGENTS = [(JStr (ustr ''a1''), \<lparr>a_meta = JObj [], a_last_seen = 10,
                         a_status = ''idle'', a_task = JNull\<rparr>)], DB = None\<rparr>) (JStr (ustr ''a1''))
     = Some \<lparr>a_meta = JObj [], a_last_seen = 10, a_status = ''idle'', a_task = JNull\<rparr>
   \<and> (\<exists>d. dict_get (fst (list_agents (1234 / 100)
              \<lparr>AGENTS = [(JStr (ustr ''a1''), \<lparr>a_meta = JObj [], a_last_seen = 10,
                         a_status = ''idle'', a_task = JNull\<rparr>)], DB = None\<rparr>)) (JStr (ustr ''a1''))
          = Some [(''meta'', PJson (JObj [])), (''last_seen'', PFloat 10),
                  (''status'', PJson (JStr (ustr ''idle''))), (''task'', PJson JNull),
                  (''last_seen_delta'', PFloat d)]
        \<and> (\<exists>n::int. d = of_int n / 10)
        \<and> \<bar>d - (1234 / 100 - 10)\<bar> \<le> 1 / 20)"
proof -
  let ?a = "\<lparr>a_meta = JObj [], a_last_seen = 10, a_status = ''idle'', a_task = JNull\<rparr>"
  let ?st = "\<lparr>AGENTS = [(JStr (ustr ''a1''), ?a)], DB = None\<rparr>"
  have h: "dict_get (AGENTS ?st) (JStr (ustr ''a1'')) = Some ?a" by simp
  from list_agents_snapshot [of "1234 / 100" ?st] h
  have "\<exists>d. dict_get (fst (list_agents (1234 / 100) ?st)) (JStr (ustr ''a1''))
          = Some [(''meta'', PJson (a_meta ?a)), (''last_seen'', PFloat (a_last_seen ?a)),
                  (''status'', PJson (JStr (ustr (a_status ?a)))), (''task'', PJson (a_task ?a)),
                  (''last_seen_delta'', PFloat d)]
        \<and> (\<exists>n::int. d = of_int n / 10)
        \<and> \<bar>d - (1234 / 100 - a_last_seen ?a)\<bar> \<le> 1 / 20"
    by blast
  then have "\<exists>d. dict_get (fst (list_agents (1234 / 100) ?st)) (JStr (ustr ''a1''))
          = Some [(''meta'', PJson (JObj [])), (''last_seen'', PFloat 10),
                  (''status'', PJson (JStr (ustr ''idle''))), (''task'', PJson JNull),
                  (''last_seen_delta'', PFloat d)]
        \<and> (\<exists>n::int. d = of_int n / 10)
        \<and> \<bar>d - (1234 / 100 - 10)\<bar> \<le> 1 / 20"
    by simp
  with h show ?thesis by blast
qed

subsection \<open>Reading the audit log\<close>

lemma sorted_desc_rev_sort_key:
  "sorted_wrt (\<lambda>a b. e_id b \<le> e_id a) (rev (sort_key e_id rs))"
proof -
  have "sorted (map e_id (sort_key e_id rs))" by simp
  then have "sorted_wrt (\<lambda>a b. e_id a \<le> e_id b) (sort_key e_id rs)"
    by (simp add: sorted_wrt_map)
  then show ?thesis
    by (simp add: sorted_wrt_rev)
qed

lemma sorted_wrt_take_desc:
  "sorted_wrt P xs \<Longrightarrow> sorted_wrt P (take n xs)"
  by (metis append_take_drop_id sorted_wrt_append)

lemma ids_ok_sorted:
  assumes "ids_ok t"
  shows "sorted_wrt (<) (map e_id (t_rows t))"
proof -
  from assms have "map e_id (t_rows t) = [1 ..< Suc (length (t_rows t))]"
    by (simp only: ids_ok_def)
  then show ?thesis
    by (simp only: sorted_wrt_upt)
qed

lemma ids_ok_sort_key: "ids_ok t \<Longrightarrow> sort_key e_id (t_rows t) = t_rows t"
proof -
  assume "ids_ok t"
  then have "map e_id (t_rows t) = [1 ..< Suc (length (t_rows t))]"
    by (simp only: ids_ok_def)
  then have "sorted (map e_id (t_rows t))"
    by (simp only: sorted_upt)
  then show ?thesis
    by (rule sort_key_id_if_sorted)
qed

text \<open>
  C7.  With \<open>total_events\<close> rows in the table, \<open>api_audit\<close> returns \<open>min 50 total_events\<close>
  of them, by descending id, and leaves the state as it is.  A row is the record
  \<open>event\<close> with the six columns.  On a table written by this program alone these are
  the rows appended last, the newest first, and the ids descend strictly.
\<close>

theorem api_audit_newest_fifty:
  assumes "DB st = Some t"
  shows "\<exists>rs. api_audit st = (Inr rs, st)
    \<and> length rs = min 50 (length (t_rows t))
    \<and> sorted_wrt (\<lambda>a b. e_id b \<le> e_id a) rs
    \<and> set rs \<subseteq> set (t_rows t)
    \<and> (ids_ok t \<longrightarrow> rs = take 50 (rev (t_rows t)) \<and> sorted_wrt (\<lambda>a b. e_id b < e_id a) rs)"
proof -
  let ?rs = "take 50 (rev (sort_key e_id (t_rows t)))"
  have r: "api_audit st = (Inr ?rs, st)"
    using assms by (simp add: api_audit_def)
  have l: "length ?rs = min 50 (length (t_rows t))"
    by simp
  have s: "sorted_wrt (\<lambda>a b. e_id b \<le> e_id a) ?rs"
    by (rule sorted_wrt_take_desc) (rule sorted_desc_rev_sort_key)
  have m: "set ?rs \<subseteq> set (t_rows t)"
    using set_take_subset [of 50 "rev (sort_key e_id (t_rows t))"] by simp
  have n: "?rs = take 50 (rev (t_rows t)) \<and> sorted_wrt (\<lambda>a b. e_id b < e_id a) ?rs" if ok: "ids_ok t"
  proof -
    have e: "?rs = take 50 (rev (t_rows t))"
      using ok by (simp add: ids_ok_sort_key)
    have "sorted_wrt (\<lambda>a b. e_id a < e_id b) (t_rows t)"
      using ids_ok_sorted [OF ok] by (simp add: sorted_wrt_map)
    then have "sorted_wrt (\<lambda>a b. e_id b < e_id a) (rev (t_rows t))"
      by (simp add: sorted_wrt_rev)
    then have "sorted_wrt (\<lambda>a b. e_id b < e_id a) (take 50 (rev (t_rows t)))"
      by (rule sorted_wrt_take_desc)
    with e show ?thesis by simp
  qed
  from r l s m n show ?thesis by blast
qed

theorem api_audit_newest_fifty_witness:
  "DB \<lparr>AGENTS = [], DB = Some \<lparr>t_rows =
          [\<lparr>e_id = 1, e_ts = ''t1'', e_type = ''register_agent'', e_payload = ''p1'',
            e_operator = ''swarm-core'', e_hash = ''h1''\<rparr>,
           \<lparr>e_id = 2, e_ts = ''t2'', e_type = ''task_assigned'', e_payload = ''p2'',
            e_operator = ''swarm-core'', e_hash = ''h2''\<rparr>], t_seq = 2\<rparr>\<rparr>
     = Some \<lparr>t_rows =
          [\<lparr>e_id = 1, e_ts = ''t1'', e_type = ''register_agent'', e_payload = ''p1'',
            e_operator = ''swarm-core'', e_hash = ''h1''\<rparr>,
           \<lparr>e_id = 2, e_ts = ''t2'', e_type = ''task_assigned'', e_payload = ''p2'',
            e_operator = ''swarm-core'', e_hash = ''h2''\<rparr>], t_seq = 2\<rparr>
   \<and> fst (api_audit \<lparr>AGENTS = [], DB = Some \<lparr>t_rows =
          [\<lparr>e_id = 1, e_ts = ''t1'', e_type = ''register_agent'', e_payload = ''p1'',
            e_operator = ''swarm-core'', e_hash = ''h1''\<rparr>,
           \<lparr>e_id = 2, e_ts = ''t2'', e_type = ''task_assigned'', e_payload = ''p2'',
            e_operator = ''swarm-core'', e_hash = ''h2''\<rparr>], t_seq = 2\<rparr>\<rparr>)
     = Inr [\<lparr>e_id = 2, e_ts = ''t2'', e_type = ''task_assigned'', e_payload = ''p2'',
            e_operator = ''swarm-core'', e_hash = ''h2''\<rparr>,
           \<lparr>e_id = 1, e_ts = ''t1'', e_type = ''register_agent'', e_payload = ''p1'',
            e_operator = ''swarm-core'', e_hash = ''h1''\<rparr>]"
proof -
  let ?r1 = "\<lparr>e_id = 1, e_ts = ''t1'', e_type = ''register_agent'', e_payload = ''p1'',
              e_operator = ''swarm-core'', e_hash = ''h1''\<rparr>"
  let ?r2 = "\<lparr>e_id = 2, e_ts = ''t2'', e_type = ''task_assigned'', e_payload = ''p2'',
              e_operator = ''swarm-core'', e_hash = ''h2''\<rparr>"
  let ?t = "\<lparr>t_rows = [?r1, ?r2], t_seq = 2\<rparr>"
  let ?st = "\<lparr>AGENTS = [], DB = Some ?t\<rparr>"
  have h: "DB ?st = Some ?t" by simp
  have "map e_id (t_rows ?t) = [1 ..< Suc (length (t_rows ?t))]"
    by (simp add: upt_rec)
  then have ok: "ids_ok ?t"
    by (simp add: ids_ok_def)
  from api_audit_newest_fifty [OF h] ok
  obtain rs where "api_audit ?st = (Inr rs, ?st)" and "rs = take 50 (rev (t_rows ?t))"
    by blast
  then have "fst (api_audit ?st) = Inr [?r2, ?r1]"
    by simp
  with h show ?thesis by blast
qed

subsection \<open>The audit log only grows\<close>

lemma db_step_audit: "db_step db (snd (audit sha256 utcnow evt_type payload operator db))"
proof (cases db)
  case None
  then show ?thesis by (simp add: audit_None db_step_def)
next
  case (Some t)
  then show ?thesis
    by (simp add: db_step_def audit_Some insert_event_def)
qed

lemma db_step_refl: "db_step db db"
  by (simp add: db_step_def)

lemma register_agent_DB:
  "DB (snd (register_agent sha256 now utcnow agent_id meta st)) = DB st
   \<or> DB (snd (register_agent sha256 now utcnow agent_id meta st))
       = snd (audit sha256 utcnow ''register_agent''
                (JObj [(ustr ''id'', agent_id), (ustr ''meta'', meta)]) ''swarm-core'' (DB st))"
  by (simp add: register_agent_def Let_def split_def)

lemma assign_task_DB:
  "DB (snd (assign_task sha256 utcnow agent_id task st)) = DB st
   \<or> DB (snd (assign_task sha256 utcnow agent_id task st))
       = snd (audit sha256 utcnow ''task_assigned''
                (JObj [(ustr ''id'', agent_id), (ustr ''task'', task)]) ''swarm-core'' (DB st))"
  by (simp add: assign_task_def Let_def split_def split: option.splits)

lemma update_heartbeat_DB: "DB (snd (update_heartbeat now agent_id st)) = DB st"
  by (simp add: update_heartbeat_def split: option.splits)

lemma db_step_register_agent:
  "db_step (DB st) (DB (snd (register_agent sha256 now utcnow agent_id meta st)))"
  using register_agent_DB [of sha256 now utcnow agent_id meta st]
  by (auto simp: db_step_refl db_step_audit)

lemma db_step_assign_task:
  "db_step (DB st) (DB (snd (assign_task sha256 utcnow agent_id task st)))"
  using assign_task_DB [of sha256 utcnow agent_id task st]
  by (auto simp: db_step_refl db_step_audit)

lemma api_register_state:
  "snd (api_register sha256 now utcnow data st) = st
   \<or> (\<exists>agent_id meta. snd (api_register sha256 now utcnow data st)
          = snd (register_agent sha256 now utcnow agent_id meta st))"
  by (auto simp: api_register_def split_def split: sum.splits)

lemma api_heartbeat_state:
  "snd (api_heartbeat now data st) = st
   \<or> (\<exists>agent_id. snd (api_heartbeat now data st) = snd (update_heartbeat now agent_id st))"
  by (auto simp: api_heartbeat_def split_def split: sum.splits)

lemma api_assign_state:
  "snd (api_assign sha256 utcnow data st) = st
   \<or> (\<exists>agent_id task. snd (api_assign sha256 utcnow data st)
          = snd (assign_task sha256 utcnow agent_id task st))"
  by (auto simp: api_assign_def split_def split: sum.splits)

lemma db_step_api_register:
  "db_step (DB st) (DB (snd (api_register sha256 now utcnow data st)))"
  using api_register_state [of sha256 now utcnow data st]
  by (auto simp: db_step_refl db_step_register_agent)

lemma db_step_api_heartbeat:
  "db_step (DB st) (DB (snd (api_heartbeat now data st)))"
  using api_heartbeat_state [of now data st]
  by (auto simp: db_step_refl update_heartbeat_DB)

lemma db_step_api_assign:
  "db_step (DB st) (DB (snd (api_assign sha256 utcnow data st)))"
  using api_assign_state [of sha256 utcnow data st]
  by (auto simp: db_step_refl db_step_assign_task)

lemma db_step_exec: "db_step (DB st) (DB (exec sha256 c st))"
proof (cases c)
  case InitDb
  then show ?thesis by (simp add: db_step_def)
next
  case (Audit utcnow evt_type payload operator)
  then show ?thesis by (simp add: db_step_audit)
next
  case (RegisterAgent now utcnow agent_id meta)
  then show ?thesis by (simp add: db_step_register_agent)
next
  case (UpdateHeartbeat now agent_id)
  then show ?thesis by (simp add: update_heartbeat_DB db_step_refl)
next
  case (AssignTask utcnow agent_id task)
  then show ?thesis by (simp add: db_step_assign_task)
next
  case (ListAgents now)
  then show ?thesis by (simp add: list_agents_def db_step_refl)
next
  case (ApiRegister now utcnow data)
  then show ?thesis by (simp add: db_step_api_register)
next
  case (ApiHeartbeat now data)
  then show ?thesis by (simp add: db_step_api_heartbeat)
next
  case (ApiAssign utcnow data)
  then show ?thesis by (simp add: db_step_api_assign)
next
  case (ApiAgents now)
  then show ?thesis by (simp add: api_agents_def list_agents_def db_step_refl)
next
  case ApiAudit
  then show ?thesis by (simp add: api_audit_def db_step_refl split: option.splits)
qed

lemma ids_ok_grown:
  assumes "ids_ok t" and "rs \<noteq> []" and "butlast rs = t_rows t"
    and "e_id (last rs) = Suc (t_seq t)"
  shows "ids_ok \<lparr>t_rows = rs, t_seq = Suc (t_seq t)\<rparr>"
proof -
  from assms(2,3) have rs: "rs = t_rows t @ [last rs]"
    using append_butlast_last_id [of rs] by simp
  then have "length rs = Suc (length (t_rows t))"
    by (metis length_append_singleton)
  moreover from rs have "map e_id rs = map e_id (t_rows t) @ [e_id (last rs)]"
    by (metis list.simps(8,9) map_append)
  ultimately show ?thesis
    using assms(1,4) by (simp add: ids_ok_def)
qed

lemma ids_ok_empty: "ids_ok \<lparr>t_rows = [], t_seq = 0\<rparr>"
  by (simp add: ids_ok_def)

lemma db_step_inv:
  assumes "db_step db db'" and "db_inv db"
  shows "db_inv db'"
proof -
  from assms(1) consider "db' = db" | "db' = init_db db"
    | t t' where "db = Some t" and "db' = Some t'" and "t_rows t' \<noteq> []"
        and "butlast (t_rows t') = t_rows t" and "e_id (last (t_rows t')) = Suc (t_seq t)"
        and "t_seq t' = Suc (t_seq t)"
    unfolding db_step_def by (auto split: option.splits)
  then show ?thesis
  proof cases
    case 1
    with assms(2) show ?thesis by simp
  next
    case 2
    with assms(2) show ?thesis
      by (auto simp: db_inv_def init_db_def ids_ok_empty split: option.splits)
  next
    case 3
    from assms(2) 3(1) have "ids_ok t" by (simp add: db_inv_def)
    from ids_ok_grown [OF this 3(3,4,5)] 3(6) have "ids_ok t'"
      by (cases t') simp
    with 3(2) show ?thesis by (simp add: db_inv_def)
  qed
qed

lemma butlast_prefix: "butlast xs = ys \<Longrightarrow> prefix ys xs"
  using prefixeq_butlast [of xs] by simp

lemma db_step_prefix:
  "db_step db db' \<Longrightarrow> db = Some t \<Longrightarrow> \<exists>t'. db' = Some t' \<and> prefix (t_rows t) (t_rows t')"
  unfolding db_step_def
  by (auto simp: init_db_def butlast_prefix split: option.splits)

lemma run_prefix:
  "DB st = Some t \<Longrightarrow> \<exists>t'. DB (run sha256 cs st) = Some t' \<and> prefix (t_rows t) (t_rows t')"
proof (induction cs arbitrary: st t)
  case Nil
  then show ?case by simp
next
  case (Cons c cs)
  from db_step_prefix [OF db_step_exec Cons.prems]
  obtain t1 where t1: "DB (exec sha256 c st) = Some t1" and p1: "prefix (t_rows t) (t_rows t1)"
    by blast
  from Cons.IH [OF t1]
  obtain t' where "DB (run sha256 cs (exec sha256 c st)) = Some t'"
    and "prefix (t_rows t1) (t_rows t')"
    by blast
  with p1 show ?case
    by (auto intro: prefix_order.trans)
qed

lemma run_db_inv: "db_inv (DB st) \<Longrightarrow> db_inv (DB (run sha256 cs st))"
  by (induction cs arbitrary: st) (auto intro: db_step_inv db_step_exec)

text \<open>
  C6.  No call removes or changes a row: whatever calls are made, in whatever
  order, the rows the table had are still there, unchanged, at the front of the
  table (and a table that exists is never dropped).  The ids are given out in
  sequence: on a table with the ids \<open>1, ..., n\<close> every sequence of calls leaves a table
  with the ids \<open>1, ..., n'\<close> in the order of the rows, strictly increasing without a
  gap.
\<close>

theorem audit_log_append_only_gapless:
  "(\<forall>t. DB st = Some t \<longrightarrow>
      (\<exists>t'. DB (run sha256 cs st) = Some t' \<and> prefix (t_rows t) (t_rows t')))
   \<and> (db_inv (DB st) \<longrightarrow>
      (\<forall>t'. DB (run sha256 cs st) = Some t' \<longrightarrow>
         map e_id (t_rows t') = [1 ..< Suc (length (t_rows t'))]
         \<and> sorted_wrt (<) (map e_id (t_rows t'))))"
proof (intro conjI allI impI)
  fix t
  assume "DB st = Some t"
  then show "\<exists>t'. DB (run sha256 cs st) = Some t' \<and> prefix (t_rows t) (t_rows t')"
    by (rule run_prefix)
next
  fix t'
  assume i: "db_inv (DB st)" and t': "DB (run sha256 cs st) = Some t'"
  from run_db_inv [OF i, of sha256 cs] t' have ok: "ids_ok t'"
    by (simp add: db_inv_def)
  then show "map e_id (t_rows t') = [1 ..< Suc (length (t_rows t'))]"
    by (simp only: ids_ok_def)
  from ok show "sorted_wrt (<) (map e_id (t_rows t'))"
    by (rule ids_ok_sorted)
qed

theorem audit_log_append_only_gapless_witness:
  "DB \<lparr>AGENTS = [], DB = Some \<lparr>t_rows =
          [\<lparr>e_id = 1, e_ts = ''t1'', e_type = ''register_agent'', e_payload = ''p1'',
            e_operator = ''swarm-core'', e_hash = ''h1''\<rparr>], t_seq = 1\<rparr>\<rparr>
     = Some \<lparr>t_rows =
          [\<lparr>e_id = 1, e_ts = ''t1'', e_type = ''register_agent'', e_payload = ''p1'',
            e_operator = ''swarm-core'', e_hash = ''h1''\<rparr>], t_seq = 1\<rparr>
   \<and> db_inv (Some \<lparr>t_rows =
          [\<lparr>e_id = 1, e_ts = ''t1'', e_type = ''register_agent'', e_payload = ''p1'',
            e_operator = ''swarm-core'', e_hash = ''h1''\<rparr>], t_seq = 1\<rparr>)
   \<and> (\<exists>t'. DB (run id [RegisterAgent 5 ''2026-01-01T00:00:00'' (JStr (ustr ''a2'')) (JObj []),
                        AssignTask ''2026-01-01T00:00:01'' (JStr (ustr ''a2'')) (JStr (ustr ''patrol''))]
          \<lparr>AGENTS = [], DB = Some \<lparr>t_rows =
          [\<lparr>e_id = 1, e_ts = ''t1'', e_type = ''register_agent'', e_payload = ''p1'',
            e_operator = ''swarm-core'', e_hash = ''h1''\<rparr>], t_seq = 1\<rparr>\<rparr>) = Some t'
        \<and> prefix [\<lparr>e_id = 1, e_ts = ''t1'', e_type = ''register_agent'', e_payload = ''p1'',
            e_operator = ''swarm-core'', e_hash = ''h1''\<rparr>] (t_rows t')
        \<and> map e_id (t_rows t') = [1 ..< Suc (length (t_rows t'))])"
proof -
  let ?r1 = "\<lparr>e_id = 1, e_ts = ''t1'', e_type = ''register_agent'', e_payload = ''p1'',
              e_operator = ''swarm-core'', e_hash = ''h1''\<rparr>"
  let ?t = "\<lparr>t_rows = [?r1], t_seq = 1\<rparr>"
  let ?st = "\<lparr>AGENTS = [], DB = Some ?t\<rparr>"
  let ?cs = "[RegisterAgent 5 ''2026-01-01T00:00:00'' (JStr (ustr ''a2'')) (JObj []),
              AssignTask ''2026-01-01T00:00:01'' (JStr (ustr ''a2'')) (JStr (ustr ''patrol''))]"
  have h: "DB ?st = Some ?t" by simp
  have i: "db_inv (Some ?t)" by (simp add: db_inv_def ids_ok_def)
  then have i': "db_inv (DB ?st)" by simp
  from audit_log_append_only_gapless [of ?st id ?cs] h i'
  have "\<exists>t'. DB (run id ?cs ?st) = Some t' \<and> prefix (t_rows ?t) (t_rows t')
             \<and> map e_id (t_rows t') = [1 ..< Suc (length (t_rows t'))]"
    by blast
  then have "\<exists>t'. DB (run id ?cs ?st) = Some t' \<and> prefix [?r1] (t_rows t')
             \<and> map e_id (t_rows t') = [1 ..< Suc (length (t_rows t'))]"
    by simp
  with h i show ?thesis by blast
qed

subsection \<open>A task only with the status assigned\<close>

lemma task_inv_dict_set:
  "task_inv d \<Longrightarrow> (a_task a \<noteq> JNull \<longrightarrow> a_status a = ''assigned'') \<Longrightarrow> task_inv (dict_set d k a)"
  by (induction d) (auto simp: task_inv_def split: if_splits)

lemma task_inv_dict_get:
  "task_inv d \<Longrightarrow> dict_get d k = Some a \<Longrightarrow> a_task a \<noteq> JNull \<Longrightarrow> a_status a = ''assigned''"
  by (induction d) (auto simp: task_inv_def split: if_splits)

lemma task_inv_register_agent:
  "task_inv (AGENTS st) \<Longrightarrow> task_inv (AGENTS (snd (register_agent sha256 now utcnow agent_id meta st)))"
  by (simp add: register_agent_def Let_def split_def task_inv_dict_set)

lemma task_inv_update_heartbeat:
  "task_inv (AGENTS st) \<Longrightarrow> task_inv (AGENTS (snd (update_heartbeat now agent_id st)))"
  by (auto simp: update_heartbeat_def split: option.splits
           intro!: task_inv_dict_set dest: task_inv_dict_get)

lemma task_inv_assign_task:
  "task_inv (AGENTS st) \<Longrightarrow> task_inv (AGENTS (snd (assign_task sha256 utcnow agent_id task st)))"
  by (auto simp: assign_task_def Let_def split_def split: option.splits intro!: task_inv_dict_set)

lemma task_inv_exec: "task_inv (AGENTS st) \<Longrightarrow> task_inv (AGENTS (exec sha256 c st))"
proof (cases c)
  case (ApiRegister now utcnow data)
  assume "task_inv (AGENTS st)"
  with ApiRegister api_register_state [of sha256 now utcnow data st] show ?thesis
    by (auto simp: task_inv_register_agent)
next
  case (ApiHeartbeat now data)
  assume "task_inv (AGENTS st)"
  with ApiHeartbeat api_heartbeat_state [of now data st] show ?thesis
    by (auto simp: task_inv_update_heartbeat)
next
  case (ApiAssign utcnow data)
  assume "task_inv (AGENTS st)"
  with ApiAssign api_assign_state [of sha256 utcnow data st] show ?thesis
    by (auto simp: task_inv_assign_task)
next
  case ApiAudit
  assume "task_inv (AGENTS st)"
  with ApiAudit show ?thesis
    by (simp add: api_audit_def split: option.splits)
qed (simp_all add: task_inv_register_agent task_inv_update_heartbeat task_inv_assign_task
       list_agents_def api_agents_def)

lemma task_inv_run: "task_inv (AGENTS st) \<Longrightarrow> task_inv (AGENTS (run sha256 cs st))"
  by (induction cs arbitrary: st) (auto intro: task_inv_exec)

text \<open>
  C9.  Start from a registry in which every entry that holds a task has the status
  \<open>assigned\<close> (the empty registry of a starting process is one).  After any sequence
  of calls (registrations, heartbeats, assignments, directly or through the routes)
  every entry whose task is not \<open>None\<close> has the status \<open>assigned\<close>.
\<close>

theorem task_only_when_assigned:
  assumes "task_inv (AGENTS st)"
  shows "\<forall>k a. dict_get (AGENTS (run sha256 cs st)) k = Some a \<longrightarrow>
           a_task a \<noteq> JNull \<longrightarrow> a_status a = ''assigned''"
  using task_inv_run [OF assms, of sha256 cs] task_inv_dict_get by blast

theorem task_only_when_assigned_witness:
  "task_inv (AGENTS boot)
   \<and> (\<exists>a. dict_get (AGENTS (run id
              [RegisterAgent 5 ''2026-01-01T00:00:00'' (JStr (ustr ''a1'')) (JObj []),
               AssignTask ''2026-01-01T00:00:01'' (JStr (ustr ''a1'')) (JStr (ustr ''patrol'')),
               UpdateHeartbeat 6 (JStr (ustr ''a1''))] boot)) (JStr (ustr ''a1'')) = Some a
          \<and> a_task a = JStr (ustr ''patrol'') \<and> a_status a = ''assigned'')"
proof -
  let ?cs = "[RegisterAgent 5 ''2026-01-01T00:00:00'' (JStr (ustr ''a1'')) (JObj []),
              AssignTask ''2026-01-01T00:00:01'' (JStr (ustr ''a1'')) (JStr (ustr ''patrol'')),
              UpdateHeartbeat 6 (JStr (ustr ''a1''))]"
  have i: "task_inv (AGENTS boot)"
    by (simp add: boot_def task_inv_def)
  have "\<exists>a. dict_get (AGENTS (run id ?cs boot)) (JStr (ustr ''a1'')) = Some a \<and> a_task a = JStr (ustr ''patrol'')"
    by (simp add: boot_def init_db_def register_agent_def assign_task_def update_heartbeat_def
          audit_Some)
  then obtain a where g: "dict_get (AGENTS (run id ?cs boot)) (JStr (ustr ''a1'')) = Some a"
    and t: "a_task a = JStr (ustr ''patrol'')"
    by blast
  from t have "a_task a \<noteq> JNull" by simp
  with task_only_when_assigned [OF i, of id ?cs] g have "a_status a = ''assigned''"
    by blast
  with i g t show ?thesis by blast
qed

subsection \<open>Decoding what json.dumps wrote\<close>

lemma hex_val_digit: "hex_val (hex_digit n) = Some (n mod 16)"
proof -
  define k where "k = n mod 16"
  have "k < 16" by (simp add: k_def)
  then have "k = 0 \<or> k = 1 \<or> k = 2 \<or> k = 3 \<or> k = 4 \<or> k = 5 \<or> k = 6 \<or> k = 7
     \<or> k = 8 \<or> k = 9 \<or> k = 10 \<or> k = 11 \<or> k = 12 \<or> k = 13 \<or> k = 14 \<or> k = 15"
    by arith
  then have "hex_val (''0123456789abcdef'' ! k) = Some k"
    by (elim disjE) (simp_all add: hex_val_def)
  then show ?thesis
    by (simp add: hex_digit_def k_def)
qed

lemma hex4_value:
  assumes "n < 65536"
  shows "4096 * (n div 4096 mod 16) + 256 * (n div 256 mod 16) + 16 * (n div 16 mod 16) + n mod 16
         = (n::nat)"
proof -
  define a where "a = n div 16"
  define b where "b = a div 16"
  define c where "c = b div 16"
  have n: "n = 16 * a + n mod 16" by (simp add: a_def)
  have a: "a = 16 * b + a mod 16" by (simp add: b_def)
  have b: "b = 16 * c + b mod 16" by (simp add: c_def)
  have b': "n div 256 = b"
    unfolding a_def b_def by (simp add: div_mult2_eq)
  have c': "n div 4096 = c"
    unfolding a_def b_def c_def by (simp add: div_mult2_eq)
  have "c < 16"
    using assms unfolding c' [symmetric] by simp
  then have c: "c mod 16 = c" by simp
  have "4096 * c + 256 * (b mod 16) + 16 * (a mod 16) + n mod 16 = n"
    using n a b by linarith
  then show ?thesis
    by (simp add: b' c' c a_def [symmetric])
qed

lemma decode_u_hex:
  assumes "n < 65536"
  shows "decode_u (hex_digit (n div 4096) # hex_digit (n div 256) # hex_digit (n div 16)
                     # hex_digit n # X) = Some n"
proof -
  have "decode_u (hex_digit (n div 4096) # hex_digit (n div 256) # hex_digit (n div 16)
                     # hex_digit n # X)
        = Some (4096 * (n div 4096 mod 16) + 256 * (n div 256 mod 16)
                + 16 * (n div 16 mod 16) + n mod 16)"
    by (simp only: decode_u_def list.case hex_val_digit prod.case option.case)
  then show ?thesis
    by (simp only: hex4_value [OF assms])
qed

lemma char_of_eq:
  assumes "c < 256"
  shows "(char_of (c::nat) = d) = (c = of_char d)"
proof
  assume "char_of c = d"
  then have "(of_char (char_of c) :: nat) = of_char d" by simp
  with assms show "c = of_char d" by simp
next
  assume "c = of_char d"
  then show "char_of c = d" by simp
qed

lemma high_lt: "is_high n \<Longrightarrow> n < 65536" and low_lt: "is_low n \<Longrightarrow> n < 65536"
  by (simp_all add: is_high_def is_low_def)

lemma scan_u_plain:
  assumes "n < 65536" and "\<not> is_high n"
  shows "scanstring (esc_u n @ X) = map_option (apfst ((#) n)) (scanstring X)"
  using assms(2) decode_u_hex [OF assms(1), of X]
  by (simp add: esc_u_def)

lemma scan_u_pair:
  assumes "is_high hi" and "is_low lo"
  shows "scanstring (esc_u hi @ esc_u lo @ X)
         = map_option (apfst ((#) (0x10000 + ((hi - 0xD800) * 1024 + (lo - 0xDC00)))))
             (scanstring X)"
  using assms decode_u_hex [OF high_lt [OF assms(1)], of "esc_u lo @ X"]
    decode_u_hex [OF low_lt [OF assms(2)], of X]
  by (simp add: esc_u_def)

lemma scan_u_high:
  assumes "is_high hi" and "\<not> joins X"
  shows "scanstring (esc_u hi @ X) = map_option (apfst ((#) hi)) (scanstring X)"
proof (cases "take 2 X = [CHR 0x5C, CHR ''u'']")
  case False
  with assms(1) decode_u_hex [OF high_lt [OF assms(1)], of X] show ?thesis
    by (simp add: esc_u_def)
next
  case True
  with assms(2) obtain u where "decode_u (drop 2 X) = Some u" and "\<not> is_low u"
    by (auto simp: joins_def split: option.splits)
  with True assms(1) decode_u_hex [OF high_lt [OF assms(1)], of X] show ?thesis
    by (simp add: esc_u_def)
qed

lemma pair_high:
  "is_high (0xD800 + ((c - 0x10000) div 1024) mod 1024)"
  "is_low (0xDC00 + (c - 0x10000) mod 1024)"
proof -
  have "((c - 0x10000) div 1024) mod 1024 < 1024" and "(c - 0x10000) mod 1024 < 1024"
    by simp_all
  then show "is_high (0xD800 + ((c - 0x10000) div 1024) mod 1024)"
    and "is_low (0xDC00 + (c - 0x10000) mod 1024)"
    unfolding is_high_def is_low_def by linarith+
qed

lemma pair_value:
  assumes "0x10000 \<le> c" and "c < 0x110000"
  shows "0x10000 + ((0xD800 + ((c - 0x10000) div 1024) mod 1024 - 0xD800) * 1024
                    + (0xDC00 + (c - 0x10000) mod 1024 - 0xDC00)) = (c::nat)"
proof -
  define v where "v = c - 0x10000"
  have "v < 1024 * 1024" using assms by (simp add: v_def)
  then have "v div 1024 < 1024"
    by (simp add: less_mult_imp_div_less)
  then have "(v div 1024) mod 1024 * 1024 + v mod 1024 = v"
    by simp
  with assms(1) show ?thesis
    by (simp add: v_def [symmetric]) (simp add: v_def)
qed

lemma scan_printable:
  assumes "32 \<le> c" and "c \<le> 126" and "c \<noteq> 0x22" and "c \<noteq> 0x5C"
  shows "scanstring (char_of (c::nat) # X) = map_option (apfst ((#) c)) (scanstring X)"
proof -
  have lt: "c < 256" using assms by simp
  have "char_of c \<noteq> CHR 0x22" and "char_of c \<noteq> CHR 0x5C"
    using assms by (simp_all add: char_of_eq [OF lt])
  moreover have "(of_char (char_of c) :: nat) = c"
    using lt by simp
  ultimately show ?thesis
    using assms by simp
qed

lemma scan_esc_simple:
  assumes "c < 0x110000" and "\<not> is_high c"
  shows "scanstring (esc_char c @ X) = map_option (apfst ((#) c)) (scanstring X)"
proof -
  consider "c = 0x22 \<or> c = 0x5C \<or> c = 0x0A \<or> c = 0x0D \<or> c = 0x09 \<or> c = 0x08 \<or> c = 0x0C"
    | "c \<noteq> 0x22" "c \<noteq> 0x5C" "32 \<le> c" "c \<le> 126"
    | "c < 32 \<or> 126 < c" "c \<noteq> 0x0A" "c \<noteq> 0x0D" "c \<noteq> 0x09" "c \<noteq> 0x08" "c \<noteq> 0x0C"
        "c < 0x10000"
    | "0x10000 \<le> c"
    by linarith
  then show ?thesis
  proof cases
    case 1
    then show ?thesis
      by (elim disjE) (simp_all add: esc_char_def unescape_def)
  next
    case 2
    then have "esc_char c = [char_of c]"
      by (auto simp: esc_char_def)
    with scan_printable [OF 2(3,4,1,2), of X] show ?thesis by simp
  next
    case 3
    then have "esc_char c = esc_u c"
      by (auto simp: esc_char_def)
    with scan_u_plain [OF 3(7) assms(2), of X] show ?thesis by simp
  next
    case 4
    then have "esc_char c = esc_u (0xD800 + ((c - 0x10000) div 1024) mod 1024)
                            @ esc_u (0xDC00 + (c - 0x10000) mod 1024)"
      by (simp add: esc_char_def)
    with scan_u_pair [OF pair_high [of c], of X] pair_value [OF 4 assms(1)]
    show ?thesis by simp
  qed
qed

lemma esc_char_high: "is_high c \<Longrightarrow> esc_char c = esc_u c"
  by (simp add: esc_char_def is_high_def)

lemma scan_esc_high:
  assumes "is_high c" and "\<not> joins X"
  shows "scanstring (esc_char c @ X) = map_option (apfst ((#) c)) (scanstring X)"
  using scan_u_high [OF assms] by (simp add: esc_char_high [OF assms(1)])

lemma not_joins_quote: "\<not> joins (CHR 0x22 # X)"
  by (simp add: joins_def)

lemma not_joins_esc_u:
  assumes "n < 65536" and "\<not> is_low n"
  shows "\<not> joins (esc_u n @ Y)"
  using assms(2) decode_u_hex [OF assms(1), of Y]
  by (simp add: joins_def esc_u_def)

lemma not_joins_esc:
  assumes "c < 0x110000" and "\<not> is_low c"
  shows "\<not> joins (esc_char c @ Y)"
proof -
  consider "c = 0x22 \<or> c = 0x5C \<or> c = 0x0A \<or> c = 0x0D \<or> c = 0x09 \<or> c = 0x08 \<or> c = 0x0C"
    | "c \<noteq> 0x22" "c \<noteq> 0x5C" "32 \<le> c" "c \<le> 126"
    | "c < 32 \<or> 126 < c" "c \<noteq> 0x0A" "c \<noteq> 0x0D" "c \<noteq> 0x09" "c \<noteq> 0x08" "c \<noteq> 0x0C"
        "c < 0x10000"
    | "0x10000 \<le> c"
    by linarith
  then show ?thesis
  proof cases
    case 1
    then show ?thesis
      by (elim disjE) (simp_all add: esc_char_def joins_def)
  next
    case 2
    then have lt: "c < 256" by simp
    from 2 have "esc_char c = [char_of c]"
      by (auto simp: esc_char_def)
    moreover have "char_of c \<noteq> CHR 0x5C"
      using 2 by (simp add: char_of_eq [OF lt])
    ultimately show ?thesis
      by (simp add: joins_def)
  next
    case 3
    then have "esc_char c = esc_u c"
      by (auto simp: esc_char_def)
    with not_joins_esc_u [OF 3(7) assms(2), of Y] show ?thesis by simp
  next
    case 4
    let ?hi = "0xD800 + ((c - 0x10000) div 1024) mod 1024"
    from 4 have e: "esc_char c = esc_u ?hi @ esc_u (0xDC00 + (c - 0x10000) mod 1024)"
      by (simp add: esc_char_def)
    have h: "is_high ?hi" by (rule pair_high)
    then have "\<not> is_low ?hi"
      by (simp add: is_high_def is_low_def)
    from not_joins_esc_u [OF high_lt [OF h] this] e show ?thesis by simp
  qed
qed

lemma wf_ustr_hd: "wf_ustr (c # s) \<Longrightarrow> c < 0x110000"
  by (cases s) simp_all

lemma scanstring_dumps:
  "wf_ustr s \<Longrightarrow> scanstring (concat (map esc_char s) @ CHR 0x22 # rest) = Some (s, rest)"
proof (induction s rule: wf_ustr.induct)
  case 1
  then show ?case by simp
next
  case (2 c)
  show ?case
  proof (cases "is_high c")
    case True
    from scan_esc_high [OF True not_joins_quote, of rest] show ?thesis by simp
  next
    case False
    with 2 scan_esc_simple [of c "CHR 0x22 # rest"] show ?thesis by simp
  qed
next
  case (3 c d s)
  let ?X = "concat (map esc_char (d # s)) @ CHR 0x22 # rest"
  from "3.prems" have c: "c < 0x110000" and np: "\<not> (is_high c \<and> is_low d)"
    and wf: "wf_ustr (d # s)"
    by simp_all
  from "3.IH" [OF wf] have ih: "scanstring ?X = Some (d # s, rest)" .
  have "scanstring (esc_char c @ ?X) = map_option (apfst ((#) c)) (scanstring ?X)"
  proof (cases "is_high c")
    case True
    with np have "\<not> is_low d" by simp
    from not_joins_esc [OF wf_ustr_hd [OF wf] this] have "\<not> joins ?X" by simp
    with True show ?thesis by (rule scan_esc_high)
  next
    case False
    with c show ?thesis by (rule scan_esc_simple)
  qed
  with ih show ?case by simp
qed

lemma digit_cases:
  "d < 10 \<Longrightarrow> d = 0 \<or> d = 1 \<or> d = 2 \<or> d = 3 \<or> d = 4 \<or> d = 5 \<or> d = 6 \<or> d = 7 \<or> d = 8 \<or> d = (9::nat)"
  by arith

lemma digit_char:
  assumes "d < 10"
  shows "is_digit (''0123456789'' ! d)"
    and "(of_char (''0123456789'' ! d) :: nat) - 48 = d"
    and "''0123456789'' ! d = CHR ''0'' \<longleftrightarrow> d = 0"
  using digit_cases [OF assms] by (elim disjE; simp add: is_digit_def)+

lemma digits_ne: "digits n \<noteq> []"
  by (subst digits.simps) simp

lemma digits_all: "c \<in> set (digits n) \<Longrightarrow> is_digit c"
proof (induction n rule: digits.induct)
  case (1 n)
  show ?case
  proof (cases "n < 10")
    case True
    with "1.prems" digit_char(1) [OF True] show ?thesis
      by (subst (asm) digits.simps) simp
  next
    case False
    have m: "is_digit (''0123456789'' ! (n mod 10))"
      by (rule digit_char) simp
    from False "1.prems" have "c \<in> set (digits (n div 10)) \<or> c = ''0123456789'' ! (n mod 10)"
      by (subst (asm) digits.simps) auto
    with "1.IH" [OF False] m show ?thesis
      by auto
  qed
qed

lemma digits_hd: "next_is CHR ''0'' (digits n) \<longleftrightarrow> n = 0"
proof (induction n rule: digits.induct)
  case (1 n)
  show ?case
  proof (cases "n < 10")
    case True
    with digit_char(3) [OF True] show ?thesis
      by (subst digits.simps) (simp add: next_is_def)
  next
    case False
    then have "next_is CHR ''0'' (digits n) = next_is CHR ''0'' (digits (n div 10))"
      using digits_ne [of "n div 10"]
      by (subst digits.simps) (cases "digits (n div 10)", simp_all add: next_is_def)
    with "1.IH" [OF False] False show ?thesis
      by simp
  qed
qed

lemma nat_of_digits_digits: "nat_of_digits (digits n) = n"
proof (induction n rule: digits.induct)
  case (1 n)
  show ?case
  proof (cases "n < 10")
    case True
    with digit_char(2) [OF True] show ?thesis
      by (subst digits.simps) (simp add: nat_of_digits_def)
  next
    case False
    have m: "(of_char (''0123456789'' ! (n mod 10)) :: nat) - 48 = n mod 10"
      by (rule digit_char) simp
    from False have "nat_of_digits (digits n)
        = 10 * nat_of_digits (digits (n div 10)) + ((of_char (''0123456789'' ! (n mod 10)) :: nat) - 48)"
      by (subst digits.simps) (simp add: nat_of_digits_def)
    with "1.IH" [OF False] m show ?thesis
      by simp
  qed
qed

lemma next_is_simps [simp]:
  "next_is c [] = False"
  "next_is c (x # xs) = (x = c)"
  by (simp_all add: next_is_def)

lemma next_is_append: "xs \<noteq> [] \<Longrightarrow> next_is c (xs @ ys) = next_is c xs"
  by (cases xs) simp_all

lemma ends_value_not_digit: "ends_value r \<Longrightarrow> takeWhile is_digit r = []"
  by (cases r) (auto simp: ends_value_def is_digit_def)

lemma ends_value_not_frac:
  "ends_value r \<Longrightarrow> \<not> next_is CHR ''.'' r \<and> \<not> next_is CHR ''e'' r \<and> \<not> next_is CHR ''E'' r"
  by (cases r) (auto simp: ends_value_def)

lemma takeWhile_digits: "ends_value r \<Longrightarrow> takeWhile is_digit (digits n @ r) = digits n"
  by (simp add: takeWhile_append2 digits_all ends_value_not_digit)

lemma next_is_digits: "next_is c (digits n @ r) = next_is c (digits n)"
  by (simp add: next_is_append digits_ne)

lemma digits_not_minus: "\<not> next_is CHR ''-'' (digits n)"
proof -
  obtain c cs where d: "digits n = c # cs"
    using digits_ne [of n] by (cases "digits n") auto
  then have "is_digit c"
    using digits_all [of c n] by simp
  then have "c \<noteq> CHR ''-''"
    by (auto simp: is_digit_def)
  with d show ?thesis by simp
qed

lemma digits_zero: "digits 0 = ''0''"
  by (subst digits.simps) simp

lemma scan_nat_dumps:
  assumes "ends_value r"
  shows "scan_nat (digits n @ r) = Some (n, r)"
proof (cases "n = 0")
  case True
  with assms show ?thesis
    by (simp add: scan_nat_def Let_def digits_zero nat_of_digits_def ends_value_not_frac)
next
  case False
  then have "\<not> next_is CHR ''0'' (digits n @ r)"
    by (simp add: next_is_digits digits_hd)
  with assms show ?thesis
    by (simp add: scan_nat_def Let_def takeWhile_digits digits_ne nat_of_digits_digits
          ends_value_not_frac)
qed

lemma scan_int_dumps:
  assumes "ends_value r"
  shows "scan_int (dumps_int i @ r) = Some (i, r)"
proof (cases "i < 0")
  case False
  with scan_nat_dumps [OF assms, of "nat i"] show ?thesis
    by (simp add: dumps_int_def scan_int_def next_is_digits digits_not_minus)
next
  case True
  with scan_nat_dumps [OF assms, of "nat (- i)"] show ?thesis
    by (simp add: dumps_int_def scan_int_def)
qed

lemma skip_ws_simps [simp]:
  "skip_ws [] = []"
  "skip_ws (c # s) = (if is_ws c then skip_ws s else c # s)"
  by (simp_all add: skip_ws_def)

lemma starts_value_Cons: "starts_value (c # r) = (\<not> is_ws c \<and> c \<noteq> CHR '']'' \<and> c \<noteq> CHR ''}'')"
  by (simp add: starts_value_def)

lemma starts_value_append: "starts_value s \<Longrightarrow> starts_value (s @ t)"
  by (cases s) (auto simp: starts_value_def)

lemma starts_value_skip: "starts_value s \<Longrightarrow> skip_ws (s @ t) = s @ t"
  by (cases s) (auto simp: starts_value_def)

lemma starts_value_next:
  "starts_value s \<Longrightarrow> \<not> next_is CHR '']'' (s @ t) \<and> \<not> next_is CHR ''}'' (s @ t)"
  by (cases s) (auto simp: starts_value_def)

lemma dumps_int_hd: "\<exists>c s. dumps_int i = c # s \<and> (is_digit c \<or> c = CHR ''-'')"
proof (cases "i < 0")
  case True
  then show ?thesis by (simp add: dumps_int_def)
next
  case False
  obtain c cs where d: "digits (nat i) = c # cs"
    using digits_ne [of "nat i"] by (cases "digits (nat i)") auto
  then have "is_digit c"
    using digits_all [of c "nat i"] by simp
  with d False show ?thesis by (simp add: dumps_int_def)
qed

lemma starts_value_dumps: "starts_value (dumps_plain v)"
proof (cases v)
  case (JInt i)
  from dumps_int_hd [of i] obtain c s where "dumps_int i = c # s" and "is_digit c \<or> c = CHR ''-''"
    by blast
  with JInt show ?thesis
    by (auto simp: starts_value_Cons is_ws_def is_digit_def)
qed (simp_all add: starts_value_Cons is_ws_def dumps_str_def)

lemma starts_value_elems: "xs \<noteq> [] \<Longrightarrow> starts_value (dumps_elems xs)"
proof (cases xs)
  case (Cons x ys)
  then show ?thesis
    by (cases ys) (simp_all add: starts_value_dumps starts_value_append)
qed simp

lemma starts_value_items: "kvs \<noteq> [] \<Longrightarrow> starts_value (dumps_items kvs)"
proof (cases kvs)
  case (Cons kv ys)
  obtain k v where "kv = (k, v)" by (cases kv)
  with Cons show ?thesis
    by (cases ys) (simp_all add: starts_value_Cons is_ws_def dumps_str_def)
qed simp

lemma str_dict_set_fresh: "k \<notin> fst ` set d \<Longrightarrow> str_dict_set d k v = d @ [(k, v)]"
  by (induction d) auto

lemma dict_of_pairs_distinct:
  "distinct (map fst kvs) \<Longrightarrow> dict_of_pairs kvs = kvs"
proof -
  have "distinct (map fst (acc @ kvs)) \<Longrightarrow>
          foldl (\<lambda>d kv. str_dict_set d (fst kv) (snd kv)) acc kvs = acc @ kvs" for acc
  proof (induction kvs arbitrary: acc)
    case Nil
    then show ?case by simp
  next
    case (Cons kv kvs)
    from Cons.prems have "fst kv \<notin> fst ` set acc" by auto
    then have "str_dict_set acc (fst kv) (snd kv) = acc @ [kv]"
      by (simp add: str_dict_set_fresh)
    with Cons.IH [of "acc @ [kv]"] Cons.prems show ?case by simp
  qed
  from this [of "[]"] show "distinct (map fst kvs) \<Longrightarrow> dict_of_pairs kvs = kvs"
    by (simp add: dict_of_pairs_def)
qed

lemma scan_once_str:
  "scan_once (Suc n) (CHR 0x22 # s) = map_option (apfst JStr) (scanstring s)"
  by simp

lemma scan_once_arr:
  "scan_once (Suc n) (CHR ''['' # s) =
     (if next_is CHR '']'' (skip_ws s) then Some (JArr [], tl (skip_ws s))
      else map_option (apfst JArr) (scan_array n (skip_ws s)))"
  by simp

lemma scan_once_obj:
  "scan_once (Suc n) (CHR ''{'' # s) =
     (if next_is CHR ''}'' (skip_ws s) then Some (JObj [], tl (skip_ws s))
      else map_option (apfst (\<lambda>pairs. JObj (dict_of_pairs pairs))) (scan_object n (skip_ws s)))"
  by simp

lemma scan_once_lit:
  "scan_once (Suc n) (CHR ''n'' # CHR ''u'' # CHR ''l'' # CHR ''l'' # r) = Some (JNull, r)"
  "scan_once (Suc n) (CHR ''t'' # CHR ''r'' # CHR ''u'' # CHR ''e'' # r) = Some (JBool True, r)"
  "scan_once (Suc n) (CHR ''f'' # CHR ''a'' # CHR ''l'' # CHR ''s'' # CHR ''e'' # r)
     = Some (JBool False, r)"
  by simp_all

lemma scan_once_int:
  assumes "is_digit c \<or> c = CHR ''-''"
  shows "scan_once (Suc n) (c # s) = map_option (apfst JInt) (scan_int (c # s))"
proof -
  have "c \<noteq> CHR 0x22" and "c \<noteq> CHR ''{''" and "c \<noteq> CHR ''[''"
    and "c \<noteq> CHR ''n''" and "c \<noteq> CHR ''t''" and "c \<noteq> CHR ''f''"
    using assms by (auto simp: is_digit_def)
  then show ?thesis by simp
qed

lemma ends_value_simps [simp]:
  "ends_value (CHR '','' # s)" "ends_value (CHR '']'' # s)" "ends_value (CHR ''}'' # s)"
  "ends_value []"
  by (simp_all add: ends_value_def)

lemma not_ws_simps [simp]:
  "\<not> is_ws CHR '',''" "\<not> is_ws CHR '']''" "\<not> is_ws CHR ''}''" "\<not> is_ws CHR '':''"
  "is_ws CHR '' ''"
  by (simp_all add: is_ws_def)

lemma scan_dumps:
  "wf_json v \<Longrightarrow> ends_value r \<Longrightarrow> length (dumps_plain v) \<le> n
     \<Longrightarrow> scan_once n (dumps_plain v @ r) = Some (v, r)"
  "xs \<noteq> [] \<Longrightarrow> list_all wf_json xs \<Longrightarrow> length (dumps_elems xs) < n
     \<Longrightarrow> scan_array n (dumps_elems xs @ CHR '']'' # r) = Some (xs, r)"
  "kvs \<noteq> [] \<Longrightarrow> list_all (\<lambda>kv. wf_ustr (fst kv) \<and> wf_json (snd kv)) kvs
     \<Longrightarrow> length (dumps_items kvs) < n
     \<Longrightarrow> scan_object n (dumps_items kvs @ CHR ''}'' # r) = Some (kvs, r)"
proof (induction v and xs and kvs arbitrary: n r and n r and n r
       rule: dumps_plain_dumps_elems_dumps_items.induct)
  case 1
  then obtain m where "n = Suc m" by (cases n) auto
  then show ?case by (simp add: scan_once_lit del: scan_once.simps)
next
  case (2 b)
  then obtain m where "n = Suc m" by (cases n) (auto split: if_splits)
  then show ?case by (cases b) (simp_all add: scan_once_lit del: scan_once.simps)
next
  case (3 i)
  from dumps_int_hd [of i] obtain c s where d: "dumps_int i = c # s"
    and c: "is_digit c \<or> c = CHR ''-''"
    by blast
  with "3.prems" obtain m where n: "n = Suc m" by (cases n) auto
  have "scan_once (Suc m) (c # s @ r) = map_option (apfst JInt) (scan_int (c # s @ r))"
    using c by (rule scan_once_int)
  also have "c # s @ r = dumps_int i @ r"
    using d by simp
  finally show ?case
    using n "3.prems" by (simp add: scan_int_dumps del: scan_once.simps)
next
  case (4 s)
  then obtain m where "n = Suc m" by (cases n) (auto simp: dumps_str_def)
  with "4.prems" show ?case
    by (simp add: dumps_str_def scan_once_str scanstring_dumps del: scan_once.simps)
next
  case (5 xs)
  from "5.prems" obtain m where n: "n = Suc m" by (cases n) auto
  show ?case
  proof (cases "xs = []")
    case True
    with n show ?thesis
      by (simp add: scan_once_arr del: scan_once.simps)
  next
    case False
    let ?E = "dumps_elems xs @ CHR '']'' # r"
    have sv: "starts_value (dumps_elems xs)"
      using False by (rule starts_value_elems)
    have sk: "skip_ws ?E = ?E"
      using sv by (rule starts_value_skip)
    have nx: "\<not> next_is CHR '']'' ?E"
      using starts_value_next [OF sv] by blast
    have "length (dumps_elems xs) < m"
      using "5.prems" n by simp
    with "5.IH" [OF False, of m r] "5.prems" have "scan_array m ?E = Some (xs, r)"
      by simp
    with sk nx n show ?thesis
      by (simp add: scan_once_arr del: scan_once.simps)
  qed
next
  case (6 kvs)
  from "6.prems" obtain m where n: "n = Suc m" by (cases n) auto
  show ?case
  proof (cases "kvs = []")
    case True
    with n show ?thesis
      by (simp add: scan_once_obj del: scan_once.simps)
  next
    case False
    let ?E = "dumps_items kvs @ CHR ''}'' # r"
    have sv: "starts_value (dumps_items kvs)"
      using False by (rule starts_value_items)
    have sk: "skip_ws ?E = ?E"
      using sv by (rule starts_value_skip)
    have nx: "\<not> next_is CHR ''}'' ?E"
      using starts_value_next [OF sv] by blast
    have "length (dumps_items kvs) < m"
      using "6.prems" n by simp
    with "6.IH" [OF False, of m r] "6.prems" have "scan_object m ?E = Some (kvs, r)"
      by simp
    moreover have "dict_of_pairs kvs = kvs"
      using "6.prems" by (simp add: dict_of_pairs_distinct)
    ultimately show ?thesis
      using sk nx n by (simp add: scan_once_obj del: scan_once.simps)
  qed
next
  case 7
  then show ?case by simp
next
  case (8 x)
  from "8.prems" obtain m where n: "n = Suc m" by (cases n) auto
  have "scan_once m (dumps_plain x @ CHR '']'' # r) = Some (x, CHR '']'' # r)"
    using "8.IH" [of "CHR '']'' # r" m] "8.prems" n by simp
  with n show ?case by simp
next
  case (9 x y xs)
  from "9.prems" obtain m where n: "n = Suc m" by (cases n) auto
  let ?E = "dumps_elems (y # xs) @ CHR '']'' # r"
  have sk: "skip_ws ?E = ?E"
    by (rule starts_value_skip) (rule starts_value_elems, simp)
  have "scan_once m (dumps_plain x @ CHR '','' # CHR '' '' # ?E) = Some (x, CHR '','' # CHR '' '' # ?E)"
    using "9.IH"(1) [of "CHR '','' # CHR '' '' # ?E" m] "9.prems" n by simp
  moreover have "scan_array m ?E = Some (y # xs, r)"
    using "9.IH"(2) [of m r] "9.prems" n by simp
  ultimately show ?case
    using n sk by simp
next
  case 10
  then show ?case by simp
next
  case (11 k v)
  from "11.prems" obtain m where n: "n = Suc m" by (cases n) auto
  have sk: "skip_ws (dumps_plain v @ CHR ''}'' # r) = dumps_plain v @ CHR ''}'' # r"
    by (rule starts_value_skip) (rule starts_value_dumps)
  have "scan_once m (dumps_plain v @ CHR ''}'' # r) = Some (v, CHR ''}'' # r)"
    using "11.IH" [of "CHR ''}'' # r" m] "11.prems" n by simp
  moreover have "wf_ustr k"
    using "11.prems" by simp
  ultimately show ?case
    using n sk by (simp add: dumps_str_def scanstring_dumps)
next
  case (12 k v kv kvs)
  from "12.prems" obtain m where n: "n = Suc m" by (cases n) auto
  let ?E = "dumps_items (kv # kvs) @ CHR ''}'' # r"
  have ske: "skip_ws ?E = ?E"
    by (rule starts_value_skip) (rule starts_value_items, simp)
  have sk: "skip_ws (dumps_plain v @ CHR '','' # CHR '' '' # ?E) = dumps_plain v @ CHR '','' # CHR '' '' # ?E"
    by (rule starts_value_skip) (rule starts_value_dumps)
  have "scan_once m (dumps_plain v @ CHR '','' # CHR '' '' # ?E) = Some (v, CHR '','' # CHR '' '' # ?E)"
    using "12.IH"(1) [of "CHR '','' # CHR '' '' # ?E" m] "12.prems" n by simp
  moreover have "scan_object m ?E = Some (kv # kvs, r)"
    using "12.IH"(2) [of m r] "12.prems" n by simp
  moreover have "wf_ustr k"
    using "12.prems" by simp
  ultimately show ?case
    using n sk ske by (simp add: dumps_str_def scanstring_dumps)
qed

lemma loads_dumps: "wf_json v \<Longrightarrow> loads (dumps_plain v) = Some v"
proof -
  assume wf: "wf_json v"
  have sk: "skip_ws (dumps_plain v) = dumps_plain v"
    using starts_value_skip [OF starts_value_dumps, of v "[]"] by simp
  from scan_dumps(1) [OF wf, of "[]" "Suc (length (dumps_plain v))"]
  have "scan_once (Suc (length (dumps_plain v))) (dumps_plain v) = Some (v, [])"
    by simp
  with sk show ?thesis
    by (simp add: loads_def del: scan_once.simps)
qed

subsection \<open>The stored hash can be recomputed, surrogate pairs apart\<close>

lemma of_char_lt_256: "(of_char c :: nat) < 256"
  by (cases c) (simp add: of_char_def)

lemma wf_ustr_small: "(\<forall>c\<in>set s. c < 0xD800) \<Longrightarrow> wf_ustr s"
  by (induction s rule: wf_ustr.induct) (auto simp: is_high_def)

lemma wf_ustr_ustr [simp]: "wf_ustr (ustr s)"
proof (rule wf_ustr_small)
  show "\<forall>c\<in>set (ustr s). c < 0xD800"
  proof
    fix c
    assume "c \<in> set (ustr s)"
    then obtain x where "c = of_char x"
      by (auto simp: ustr_def)
    with of_char_lt_256 [of x] show "c < 0xD800"
      by linarith
  qed
qed











lemma esc_pair: "dumps_str [0xD83D, 0xDE00] = dumps_str [0x1F600]"
  by (simp add: dumps_str_def esc_char_def)

lemma sorted_before:
  "sort_keys (audit_rec ts ty (JObj [(ustr ''id'', a), (ustr ''meta'',
      JObj [([0xD83D, 0xDE00], JInt 1), ([0xFF01], JInt 2)])]) op)
   = JObj [(ustr ''operator'', JStr (ustr op)),
           (ustr ''payload'', JObj [(ustr ''id'', sort_keys a), (ustr ''meta'',
              JObj [([0xD83D, 0xDE00], JInt 1), ([0xFF01], JInt 2)])]),
           (ustr ''ts'', JStr (ustr ts)), (ustr ''type'', JStr (ustr ty))]"
  by (simp add: audit_rec_def ustr_def)

lemma sorted_after:
  "sort_keys (audit_rec ts ty (JObj [(ustr ''id'', a), (ustr ''meta'',
      JObj [([0x1F600], JInt 1), ([0xFF01], JInt 2)])]) op)
   = JObj [(ustr ''operator'', JStr (ustr op)),
           (ustr ''payload'', JObj [(ustr ''id'', sort_keys a), (ustr ''meta'',
              JObj [([0xFF01], JInt 2), ([0x1F600], JInt 1)])]),
           (ustr ''ts'', JStr (ustr ts)), (ustr ''type'', JStr (ustr ty))]"
  by (simp add: audit_rec_def ustr_def)

lemma surrogate_texts_differ:
  "dumps True (audit_rec ts ty (JObj [(ustr ''id'', JStr (ustr ''a1'')), (ustr ''meta'',
      JObj [([0x1F600], JInt 1), ([0xFF01], JInt 2)])]) op)
   \<noteq> dumps True (audit_rec ts ty (JObj [(ustr ''id'', JStr (ustr ''a1'')), (ustr ''meta'',
      JObj [([0xD83D, 0xDE00], JInt 1), ([0xFF01], JInt 2)])]) op)"
proof
  let ?A = "JObj [(ustr ''operator'', JStr (ustr op)),
           (ustr ''payload'', JObj [(ustr ''id'', JStr (ustr ''a1'')), (ustr ''meta'',
              JObj [([0x1F600], JInt 1), ([0xFF01], JInt 2)])]),
           (ustr ''ts'', JStr (ustr ts)), (ustr ''type'', JStr (ustr ty))]"
  let ?B = "JObj [(ustr ''operator'', JStr (ustr op)),
           (ustr ''payload'', JObj [(ustr ''id'', JStr (ustr ''a1'')), (ustr ''meta'',
              JObj [([0xFF01], JInt 2), ([0x1F600], JInt 1)])]),
           (ustr ''ts'', JStr (ustr ts)), (ustr ''type'', JStr (ustr ty))]"
  assume "dumps True (audit_rec ts ty (JObj [(ustr ''id'', JStr (ustr ''a1'')), (ustr ''meta'',
      JObj [([0x1F600], JInt 1), ([0xFF01], JInt 2)])]) op)
   = dumps True (audit_rec ts ty (JObj [(ustr ''id'', JStr (ustr ''a1'')), (ustr ''meta'',
      JObj [([0xD83D, 0xDE00], JInt 1), ([0xFF01], JInt 2)])]) op)"
  then have "dumps_plain ?B = dumps_plain ?A"
    unfolding dumps_def if_True sorted_before sorted_after
    by (simp add: esc_pair)
  moreover have "loads (dumps_plain ?A) = Some ?A"
    by (rule loads_dumps) (simp add: is_high_def is_low_def)
  moreover have "loads (dumps_plain ?B) = Some ?B"
    by (rule loads_dumps) (simp add: is_high_def is_low_def)
  ultimately have "?A = ?B" by simp
  then show False by simp
qed

lemma surrogate_payload_loads:
  "loads (dumps False (JObj [(ustr ''id'', JStr (ustr ''a1'')), (ustr ''meta'',
      JObj [([0xD83D, 0xDE00], JInt 1), ([0xFF01], JInt 2)])]))
   = Some (JObj [(ustr ''id'', JStr (ustr ''a1'')), (ustr ''meta'',
      JObj [([0x1F600], JInt 1), ([0xFF01], JInt 2)])])"
proof -
  let ?p1 = "JObj [(ustr ''id'', JStr (ustr ''a1'')), (ustr ''meta'',
      JObj [([0x1F600], JInt 1), ([0xFF01], JInt 2)])]"
  have "dumps False (JObj [(ustr ''id'', JStr (ustr ''a1'')), (ustr ''meta'',
      JObj [([0xD83D, 0xDE00], JInt 1), ([0xFF01], JInt 2)])]) = dumps_plain ?p1"
    by (simp add: dumps_def esc_pair)
  moreover have "loads (dumps_plain ?p1) = Some ?p1"
    by (rule loads_dumps) (simp add: is_high_def is_low_def)
  ultimately show ?thesis by simp
qed

lemma surrogate_row_unverified:
  assumes "inj sha256"
  shows "\<not> db_verified sha256 (DB (run sha256 [ApiRegister 5 ''2026-01-01T00:00:00''
      (JObj [(ustr ''agent_id'', JStr (ustr ''a1'')),
             (ustr ''meta'', JObj [([0xD83D, 0xDE00], JInt 1), ([0xFF01], JInt 2)])])] boot))"
proof -
  let ?p0 = "JObj [(ustr ''id'', JStr (ustr ''a1'')), (ustr ''meta'',
      JObj [([0xD83D, 0xDE00], JInt 1), ([0xFF01], JInt 2)])]"
  let ?e = "\<lparr>e_id = 1, e_ts = ''2026-01-01T00:00:00Z'', e_type = ''register_agent'',
            e_payload = dumps False ?p0, e_operator = ''swarm-core'',
            e_hash = sha256 (dumps True (audit_rec ''2026-01-01T00:00:00Z'' ''register_agent'' ?p0
                                   ''swarm-core''))\<rparr>"
  have "DB (run sha256 [ApiRegister 5 ''2026-01-01T00:00:00''
      (JObj [(ustr ''agent_id'', JStr (ustr ''a1'')),
             (ustr ''meta'', JObj [([0xD83D, 0xDE00], JInt 1), ([0xFF01], JInt 2)])])] boot)
        = Some \<lparr>t_rows = [?e], t_seq = 1\<rparr>"
    by (simp add: boot_def init_db_def api_register_def register_agent_def audit_Some
          insert_event_def)
  moreover have "recompute_hash sha256 ?e \<noteq> Some (e_hash ?e)"
    using surrogate_texts_differ [of "''2026-01-01T00:00:00Z''" "''register_agent''" "''swarm-core''"]
    by (simp add: recompute_hash_def surrogate_payload_loads inj_eq [OF assms])
  ultimately show ?thesis
    by (simp add: db_verified_def)
qed




end
